theory Spec2Isabelle
  imports Complex_Main
begin

section \<open>Values, errors and the numerical environment\<close>

text \<open>
  The exceptions the modelled code can raise. Each raise of the source is a branch of the
  model that returns \<open>Inl\<close> of one of these. \<open>OSError\<close> stands for the errors of the
  operating system other than FileExistsError and the FileNotFoundError of \<open>unlink\<close>.
\<close>

datatype error =
  KeyError | IndexError | ValueError | TypeError | FileNotFoundError | OSError

text \<open>
  A value of one variable of an observation: a Python float or a Python string.
  The type \<open>'f\<close> stands for IEEE doubles; their arithmetic is a parameter of the model.
\<close>

datatype 'f cell = Fl 'f | St string

text \<open>
  The parts of NumPy and of double arithmetic that \<open>data.py\<close> calls. \<open>'g\<close> is the state of
  a \<open>numpy.random.Generator\<close>; every draw takes the state and returns the advanced one.
  \<open>default_rng\<close> raises ValueError on a seed it does not accept (\<open>None\<close> here).
  \<open>flit m k\<close> is the double written as the decimal literal \<open>m / 10^k\<close>.
  \<open>simon_mu\<close> and \<open>simon_Sigma\<close> are the mean and covariance that \<open>Simon.__init__\<close> estimates
  from \<open>data/Zwaan2018/MeansSimonTask.csv\<close>.
  \<open>py_int\<close> is Python's \<open>int\<close> on a string, \<open>None\<close> when it raises ValueError.
  \<open>name_max\<close> is the longest file name the file system of the cache directory takes,
  \<open>path_max\<close> the length from which on a path is too long.
\<close>

record ('g, 'f) env =
  default_rng :: "int \<Rightarrow> 'g option"
  integers :: "nat \<Rightarrow> 'g \<Rightarrow> nat \<times> 'g"
  choice :: "nat \<Rightarrow> 'f list \<Rightarrow> 'g \<Rightarrow> nat \<times> 'g"
  normal :: "'f \<Rightarrow> 'f \<Rightarrow> 'g \<Rightarrow> 'f \<times> 'g"
  multivariate_normal :: "'f list \<Rightarrow> 'f list list \<Rightarrow> 'g \<Rightarrow> 'f list \<times> 'g"
  fadd :: "'f \<Rightarrow> 'f \<Rightarrow> 'f"
  fexp :: "'f \<Rightarrow> 'f"
  fround :: "'f \<Rightarrow> 'f"
  flit :: "int \<Rightarrow> nat \<Rightarrow> 'f"
  simon_mu :: "'f list"
  simon_Sigma :: "'f list list"
  py_int :: "string \<Rightarrow> int option"
  name_max :: nat
  path_max :: nat

text \<open>
  Subscripting a Python list with an integer. From \<open>-len\<close> up to \<open>-1\<close> the position is
  taken from the end; beyond either end the subscript raises IndexError.
\<close>

definition py_index :: "'a list \<Rightarrow> int \<Rightarrow> error + 'a" where
  "py_index xs i =
     (if 0 \<le> i \<and> i < int (length xs) then Inr (xs ! nat i)
      else if - int (length xs) \<le> i \<and> i < 0 then Inr (xs ! nat (int (length xs) + i))
      else Inl IndexError)"

section \<open>Studies (data.py)\<close>

datatype dtype = Float | Category "string list" bool

datatype 'f study = Levels | Simon | TwoSample 'f

definition groups :: "string list" where
  "groups = [''A'', ''B'']"

definition sex :: "string list" where
  "sex = [''female'', ''male'']"

definition happiness :: "string list" where
  "happiness = [''very unhappy'', ''unhappy'', ''neutral'', ''happy'', ''very happy'']"

definition colour :: "string list" where
  "colour = [''red'', ''orange'', ''yellow'', ''green'', ''blue'', ''purple'',
             ''black'', ''white'', ''grey'', ''brown'']"

definition sex_happiness :: "('g, 'f) env \<Rightarrow> 'f list list" where
  "sex_happiness e =
     [map (\<lambda>m. flit e m 2) [16, 17, 9, 23, 35],
      map (\<lambda>m. flit e m 2) [31, 26, 14, 18, 11]]"

definition sex_lhm :: "('g, 'f) env \<Rightarrow> 'f list list" where
  "sex_lhm e =
     [[flit e 5119 3, flit e 5576 5],
      [flit e 5163 3, flit e 6775 5]]"

definition sex_colour :: "('g, 'f) env \<Rightarrow> 'f list list" where
  "sex_colour e =
     [map (\<lambda>m. flit e m 3) [120, 69, 60, 174, 260, 170, 64, 36, 32, 15],
      map (\<lambda>m. flit e m 3) [140, 80, 46, 200, 290, 90, 78, 26, 35, 15]]"

text \<open>The \<open>variables\<close> property without the descriptions: column name and data type, in order.\<close>

fun variables :: "'f study \<Rightarrow> (string \<times> dtype) list" where
  "variables Simon =
     [(''session1_congruent'', Float), (''session1_incongruent'', Float),
      (''session2_congruent'', Float), (''session2_incongruent'', Float)]"
| "variables (TwoSample d) =
     [(''group'', Category groups False), (''x'', Float)]"
| "variables Levels =
     [(''sex'', Category sex False), (''happiness'', Category happiness True),
      (''colour'', Category colour False), (''height'', Float)]"

text \<open>
  \<open>get_observation(rng, index)\<close> of the three subclasses. The generator is threaded through
  the draws in the order of the source.
\<close>

fun get_observation ::
  "('g, 'f) env \<Rightarrow> 'f study \<Rightarrow> 'g \<Rightarrow> nat \<Rightarrow> error + ('f cell list \<times> 'g)" where
  "get_observation e Simon g index =
     (let (x, g1) = multivariate_normal e (simon_mu e) (simon_Sigma e) g
      in Inr (map Fl x, g1))"
| "get_observation e (TwoSample d) g index =
     (let gi = index mod 2;
          (x, g1) = normal e (flit e 0 0) (flit e 1 0) g;
          x = (if gi = 1 then fadd e x d else x)
      in case py_index groups (int gi) of
           Inl err \<Rightarrow> Inl err
         | Inr grp \<Rightarrow> Inr ([St grp, Fl x], g1))"
| "get_observation e Levels g index =
     (let (si, g1) = integers e (length sex) g
      in case py_index (sex_happiness e) (int si) of
           Inl err \<Rightarrow> Inl err
         | Inr ph \<Rightarrow>
      let (hi, g2) = choice e (length happiness) ph g1
      in case py_index (sex_colour e) (int si) of
           Inl err \<Rightarrow> Inl err
         | Inr pc \<Rightarrow>
      let (ci, g3) = choice e (length colour) pc g2
      in case py_index (sex_lhm e) (int si) of
           Inl err \<Rightarrow> Inl err
         | Inr lhm \<Rightarrow>
      let (z, g4) = normal e (lhm ! 0) (lhm ! 1) g3;
          height = fround e (fexp e z)
      in case py_index sex (int si) of
           Inl err \<Rightarrow> Inl err
         | Inr s \<Rightarrow>
      (case py_index happiness (int hi) of
           Inl err \<Rightarrow> Inl err
         | Inr h \<Rightarrow>
      (case py_index colour (int ci) of
           Inl err \<Rightarrow> Inl err
         | Inr c \<Rightarrow> Inr ([St s, St h, St c, Fl height], g4))))"

section \<open>Data frames\<close>

text \<open>
  A column of a pandas DataFrame, by dtype: float64; category (ordered flag, categories,
  and one code per row, \<open>-1\<close> for a missing value); the integer codes that \<open>.cat.codes\<close>
  returns; the strings that \<open>.astype('str')\<close> returns.
\<close>

datatype 'f column =
    FloatCol "'f list"
  | CatCol bool "string list" "int list"
  | IntCol "int list"
  | StrCol "string list"

type_synonym 'f dataframe = "(string \<times> 'f column) list"

fun col_len :: "'f column \<Rightarrow> nat" where
  "col_len (FloatCol xs) = length xs"
| "col_len (CatCol ord cats cs) = length cs"
| "col_len (IntCol cs) = length cs"
| "col_len (StrCol ss) = length ss"

text \<open>The first \<open>n\<close> rows of a column and of a frame (\<open>df.head(n)\<close> for \<open>n \<ge> 0\<close>).\<close>

fun col_head :: "nat \<Rightarrow> 'f column \<Rightarrow> 'f column" where
  "col_head n (FloatCol xs) = FloatCol (take n xs)"
| "col_head n (CatCol ord cats cs) = CatCol ord cats (take n cs)"
| "col_head n (IntCol cs) = IntCol (take n cs)"
| "col_head n (StrCol ss) = StrCol (take n ss)"

definition df_head :: "nat \<Rightarrow> 'f dataframe \<Rightarrow> 'f dataframe" where
  "df_head n df = map (\<lambda>(vn, c). (vn, col_head n c)) df"

text \<open>
  \<open>pd.DataFrame.from_records(sample, columns=names)\<close>: one object column per name, the
  \<open>j\<close>-th holding the \<open>j\<close>-th entry of every record. pandas raises when a record's length
  is not the number of names.
\<close>

definition from_records ::
  "'f cell list list \<Rightarrow> string list \<Rightarrow> error + (string \<times> 'f cell list) list" where
  "from_records sample names =
     (if \<forall>r \<in> set sample. length r = length names
      then Inr (map (\<lambda>j. (names ! j, map (\<lambda>r. r ! j) sample)) [0..<length names])
      else Inl ValueError)"

text \<open>
  The position of a value among the categories, \<open>-1\<close> when it is not one of them
  (pandas stores such a value as missing).
\<close>

fun find_index :: "string list \<Rightarrow> string \<Rightarrow> int" where
  "find_index [] s = -1"
| "find_index (c # cs) s =
     (if c = s then 0 else (let i = find_index cs s in if i < 0 then -1 else i + 1))"

fun cat_code :: "string list \<Rightarrow> 'f cell \<Rightarrow> int" where
  "cat_code cats (St s) = find_index cats s"
| "cat_code cats (Fl x) = -1"

fun the_floats :: "'f cell list \<Rightarrow> error + 'f list" where
  "the_floats [] = Inr []"
| "the_floats (Fl x # cs) =
     (case the_floats cs of Inl err \<Rightarrow> Inl err | Inr xs \<Rightarrow> Inr (x # xs))"
| "the_floats (St s # cs) = Inl ValueError"

text \<open>
  \<open>Series.astype(dtype)\<close> on an object column. To \<open>float\<close>: the studies only put floats
  into a float column; a string there is reported as ValueError (pandas would first try
  to parse it).
\<close>

fun astype_col :: "dtype \<Rightarrow> 'f cell list \<Rightarrow> error + 'f column" where
  "astype_col Float cs =
     (case the_floats cs of Inl err \<Rightarrow> Inl err | Inr xs \<Rightarrow> Inr (FloatCol xs))"
| "astype_col (Category cats ord) cs = Inr (CatCol ord cats (map (cat_code cats) cs))"

text \<open>\<open>df.astype(variables)\<close>: each column cast to the type declared under its name.\<close>

fun astype ::
  "(string \<times> 'f cell list) list \<Rightarrow> (string \<times> dtype) list \<Rightarrow> error + 'f dataframe" where
  "astype [] vars = Inr []"
| "astype ((vn, cs) # rest) vars =
     (case map_of vars vn of
        None \<Rightarrow> Inl KeyError
      | Some vt \<Rightarrow>
        (case astype_col vt cs of
           Inl err \<Rightarrow> Inl err
         | Inr c \<Rightarrow>
           (case astype rest vars of
              Inl err \<Rightarrow> Inl err
            | Inr df \<Rightarrow> Inr ((vn, c) # df))))"

section \<open>The sampler (Study.get_sample)\<close>

text \<open>
  The list comprehension \<open>[self.get_observation(rng, index) for index in range(size)]\<close>:
  the observations in index order, on one generator.
\<close>

fun observations ::
  "('g, 'f) env \<Rightarrow> 'f study \<Rightarrow> 'g \<Rightarrow> nat list \<Rightarrow> error + ('f cell list list \<times> 'g)" where
  "observations e st g [] = Inr ([], g)"
| "observations e st g (index # rest) =
     (case get_observation e st g index of
        Inl err \<Rightarrow> Inl err
      | Inr (row, g1) \<Rightarrow>
        (case observations e st g1 rest of
           Inl err \<Rightarrow> Inl err
         | Inr (rows, g2) \<Rightarrow> Inr (row # rows, g2)))"

text \<open>\<open>range(size)\<close> is empty for a size that is not positive.\<close>

definition get_sample ::
  "('g, 'f) env \<Rightarrow> 'f study \<Rightarrow> int \<Rightarrow> 'g \<Rightarrow> error + 'f dataframe" where
  "get_sample e st sz g =
     (case observations e st g [0..<nat sz] of
        Inl err \<Rightarrow> Inl err
      | Inr (sample, g1) \<Rightarrow>
        (let vars = variables st in
         case from_records sample (map fst vars) of
           Inl err \<Rightarrow> Inl err
         | Inr df \<Rightarrow> astype df vars))"

section \<open>File materialization (df_to_csv, df_to_xlsx, df_to_sav)\<close>

text \<open>
  \<open>df[varName]\<close> and \<open>df[varName] = column\<close> on a frame whose column names are distinct
  (they are the keys of the \<open>variables\<close> dictionary); assigning to an existing column
  keeps its position.
\<close>

definition df_get :: "'f dataframe \<Rightarrow> string \<Rightarrow> 'f column option" where
  "df_get df vn = map_of df vn"

definition df_set :: "'f dataframe \<Rightarrow> string \<Rightarrow> 'f column \<Rightarrow> 'f dataframe" where
  "df_set df vn c = map (\<lambda>(n, x). if n = vn then (n, c) else (n, x)) df"

text \<open>
  What the SavWriter is given: the variable names, the four dictionaries, and the frame
  whose rows are written one by one.
\<close>

record 'f sav =
  sav_varNames :: "string list"
  sav_varTypes :: "string \<rightharpoonup> nat"
  sav_valueLabels :: "string \<rightharpoonup> (int \<rightharpoonup> string)"
  sav_measureLevels :: "string \<rightharpoonup> string"
  sav_formats :: "string \<rightharpoonup> string"
  sav_data :: "'f dataframe"

text \<open>
  A file of the cache directory, by what was handed to its writer. \<open>Empty\<close> is the
  zero-length signal file.
\<close>

datatype 'f file_data =
    Empty
  | Csv "'f dataframe"
  | Xlsx "'f dataframe"
  | Dta "'f dataframe"
  | Sav "'f sav"

type_synonym 'f fs = "string \<rightharpoonup> 'f file_data"

text \<open>
  The loop shared by \<open>df_to_csv\<close> and \<open>df_to_xlsx\<close>. Its body replaces an ordered
  categorical column, in the frame itself, by its integer codes.
\<close>

definition code_ordinal :: "'f dataframe \<Rightarrow> string \<Rightarrow> 'f dataframe" where
  "code_ordinal df varName =
     (case df_get df varName of
        Some (CatCol True cats codes) \<Rightarrow> df_set df varName (IntCol codes)
      | _ \<Rightarrow> df)"

fun ordinals_to_codes :: "string list \<Rightarrow> 'f dataframe \<Rightarrow> 'f dataframe" where
  "ordinals_to_codes [] df = df"
| "ordinals_to_codes (varName # rest) df = ordinals_to_codes rest (code_ordinal df varName)"

text \<open>
  Both functions return the frame as they leave it (the caller's object is the one that
  was changed) and the file system with the file written.
\<close>

definition df_to_csv :: "'f dataframe \<Rightarrow> string \<Rightarrow> 'f fs \<Rightarrow> 'f dataframe \<times> 'f fs" where
  "df_to_csv df pathname files =
     (let df1 = ordinals_to_codes (map fst df) df
      in (df1, files(pathname \<mapsto> Csv df1)))"

definition df_to_xlsx :: "'f dataframe \<Rightarrow> string \<Rightarrow> 'f fs \<Rightarrow> 'f dataframe \<times> 'f fs" where
  "df_to_xlsx df pathname files =
     (let df1 = ordinals_to_codes (map fst df) df
      in (df1, files(pathname \<mapsto> Xlsx df1)))"

text \<open>
  The values of a categorical column: the label at each code, \<open>None\<close> for a missing value.
\<close>

definition cat_values :: "string list \<Rightarrow> int list \<Rightarrow> string option list" where
  "cat_values cats codes =
     map (\<lambda>c. if 0 \<le> c \<and> c < int (length cats) then Some (cats ! nat c) else None) codes"

text \<open>
  \<open>{value: labels[value] for value in values}\<close>: one entry per code that occurs in the
  column; \<open>labels[value]\<close> is Python indexing.
\<close>

fun value_labels ::
  "string list \<Rightarrow> int list \<Rightarrow> (int \<rightharpoonup> string) \<Rightarrow> error + (int \<rightharpoonup> string)" where
  "value_labels labels [] m = Inr m"
| "value_labels labels (v # vs) m =
     (case py_index labels v of
        Inl err \<Rightarrow> Inl err
      | Inr l \<Rightarrow> value_labels labels vs (m(v \<mapsto> l)))"

text \<open>
  \<open>ceil(log10(n))\<close>. The double that \<open>math.log10\<close> returns is modelled by the real
  logarithm; \<open>log10(0)\<close> raises ValueError.
\<close>

definition ceil_log10 :: "nat \<Rightarrow> error + nat" where
  "ceil_log10 n = (if n = 0 then Inl ValueError else Inr (nat \<lceil>log 10 (real n)\<rceil>))"

text \<open>\<open>str(k)\<close> for a natural number: its decimal digits (\<open>digit_char\<close> is used below 10).\<close>

definition digit_char :: "nat \<Rightarrow> char" where
  "digit_char d = ''0123456789'' ! d"

fun str_nat :: "nat \<Rightarrow> string" where
  "str_nat n = (if n < 10 then [digit_char n] else str_nat (n div 10) @ [digit_char (n mod 10)])"

declare str_nat.simps [simp del]

text \<open>The display format \<open>f'F{ceil(log10(len(labels)))}.0'\<close>.\<close>

definition sav_format :: "nat \<Rightarrow> error + string" where
  "sav_format n =
     (case ceil_log10 n of
        Inl err \<Rightarrow> Inl err
      | Inr k \<Rightarrow> Inr (''F'' @ str_nat k @ ''.0''))"

text \<open>
  \<open>max(df[varName].apply(len))\<close>: \<open>len\<close> of a missing value raises TypeError, \<open>max\<close> of
  an empty column raises ValueError.
\<close>

fun apply_len :: "string option list \<Rightarrow> error + nat list" where
  "apply_len [] = Inr []"
| "apply_len (None # vs) = Inl TypeError"
| "apply_len (Some l # vs) =
     (case apply_len vs of Inl err \<Rightarrow> Inl err | Inr ns \<Rightarrow> Inr (length l # ns))"

fun py_max :: "nat list \<Rightarrow> error + nat" where
  "py_max [] = Inl ValueError"
| "py_max (n # ns) = Inr (fold max ns n)"

definition max_str_len :: "string list \<Rightarrow> int list \<Rightarrow> error + nat" where
  "max_str_len cats codes =
     (case apply_len (cat_values cats codes) of
        Inl err \<Rightarrow> Inl err
      | Inr ns \<Rightarrow> py_max ns)"

text \<open>\<open>.astype('str')\<close> on a categorical column: the label text, \<open>nan\<close> for a missing value.\<close>

definition astype_str :: "string list \<Rightarrow> int list \<Rightarrow> string list" where
  "astype_str cats codes =
     map (\<lambda>v. case v of Some l \<Rightarrow> l | None \<Rightarrow> ''nan'') (cat_values cats codes)"

text \<open>
  The loop of \<open>df_to_sav\<close>: \<open>sav_variable\<close> is its body, for one variable. It fills
  the four dictionaries and changes the frame as it goes; when an iteration raises, the
  frame keeps the changes made so far.
\<close>

record sav_info =
  varTypes :: "string \<rightharpoonup> nat"
  measureLevels :: "string \<rightharpoonup> string"
  formats :: "string \<rightharpoonup> string"
  valueLabels :: "string \<rightharpoonup> (int \<rightharpoonup> string)"

definition no_info :: sav_info where
  "no_info = \<lparr>varTypes = Map.empty, measureLevels = Map.empty,
              formats = Map.empty, valueLabels = Map.empty\<rparr>"

definition sav_variable ::
  "string \<Rightarrow> 'f dataframe \<Rightarrow> sav_info \<Rightarrow> (error + sav_info) \<times> 'f dataframe" where
  "sav_variable varName df info =
     (case df_get df varName of
        None \<Rightarrow> (Inl KeyError, df)
      | Some (CatCol ord labels codes) \<Rightarrow>
          if ord then
            (let info1 = info\<lparr>varTypes := (varTypes info)(varName \<mapsto> 0),
                             measureLevels := (measureLevels info)(varName \<mapsto> ''ordinal'')\<rparr>;
                 df1 = df_set df varName (IntCol codes)
             in case value_labels labels codes Map.empty of
                  Inl err \<Rightarrow> (Inl err, df1)
                | Inr vl \<Rightarrow>
                  (case sav_format (length labels) of
                     Inl err \<Rightarrow> (Inl err, df1)
                   | Inr fm \<Rightarrow>
                       (Inr (info1\<lparr>valueLabels := (valueLabels info1)(varName \<mapsto> vl),
                                    formats := (formats info1)(varName \<mapsto> fm)\<rparr>), df1)))
          else
            (case max_str_len labels codes of
               Inl err \<Rightarrow> (Inl err, df)
             | Inr w \<Rightarrow>
                 (Inr (info\<lparr>varTypes := (varTypes info)(varName \<mapsto> w),
                             measureLevels := (measureLevels info)(varName \<mapsto> ''nominal'')\<rparr>),
                  df_set df varName (StrCol (astype_str labels codes))))
      | Some c \<Rightarrow>
          (Inr (info\<lparr>varTypes := (varTypes info)(varName \<mapsto> 0),
                      measureLevels := (measureLevels info)(varName \<mapsto> ''scale'')\<rparr>), df))"

fun sav_prepare ::
  "string list \<Rightarrow> 'f dataframe \<Rightarrow> sav_info \<Rightarrow> (error + sav_info) \<times> 'f dataframe" where
  "sav_prepare [] df info = (Inr info, df)"
| "sav_prepare (varName # rest) df info =
     (case sav_variable varName df info of
        (Inl err, df1) \<Rightarrow> (Inl err, df1)
      | (Inr info1, df1) \<Rightarrow> sav_prepare rest df1 info1)"

definition df_to_sav ::
  "'f dataframe \<Rightarrow> string \<Rightarrow> 'f fs \<Rightarrow> (error + unit) \<times> 'f dataframe \<times> 'f fs" where
  "df_to_sav df pathname files =
     (let varNames = map fst df
      in case sav_prepare varNames df no_info of
           (Inl err, df1) \<Rightarrow> (Inl err, df1, files)
         | (Inr info, df1) \<Rightarrow>
             (Inr (), df1,
              files(pathname \<mapsto> Sav \<lparr>sav_varNames = varNames, sav_varTypes = varTypes info,
                                     sav_valueLabels = valueLabels info,
                                     sav_measureLevels = measureLevels info,
                                     sav_formats = formats info, sav_data = df1\<rparr>)))"

section \<open>The memoized sampler (get_study_sample)\<close>

definition STUDIES :: "('g, 'f) env \<Rightarrow> string \<rightharpoonup> 'f study" where
  "STUDIES e = map_of
     [(''levels'', Levels),
      (''simon'', Simon),
      (''twosample_null'', TwoSample (flit e 0 0)),
      (''twosample_medium'', TwoSample (flit e 5 1))]"

text \<open>
  The memory of one worker process: the DataFrame objects by address, the next free
  address, and the table of \<open>lru_cache\<close>, most recently used first. The table holds the
  address of the frame, so every hit returns the one object made at the miss.
\<close>

record 'f proc =
  objects :: "nat \<Rightarrow> 'f dataframe"
  next_obj :: nat
  memo :: "((string \<times> int \<times> int) \<times> nat) list"

definition maxsize :: nat where
  "maxsize = 300"

text \<open>
  The body of \<open>get_study_sample\<close>, the function that \<open>lru_cache\<close> wraps: a generator
  seeded with \<open>sid\<close>, then the sample of the study.
\<close>

definition compute_study_sample ::
  "('g, 'f) env \<Rightarrow> string \<Rightarrow> int \<Rightarrow> int \<Rightarrow> error + 'f dataframe" where
  "compute_study_sample e study sz sid =
     (case default_rng e sid of
        None \<Rightarrow> Inl ValueError
      | Some rng \<Rightarrow>
        (case STUDIES e study of
           None \<Rightarrow> Inl KeyError
         | Some st \<Rightarrow> get_sample e st sz rng))"

text \<open>
  \<open>get_study_sample\<close> with its cache. A hit returns the stored address and makes the
  entry the most recent one. A miss runs the body; an exception is not stored; a result
  becomes a new object, stored in front, and the table is cut to \<open>maxsize\<close> entries.
\<close>

definition get_study_sample ::
  "('g, 'f) env \<Rightarrow> string \<Rightarrow> int \<Rightarrow> int \<Rightarrow> 'f proc \<Rightarrow> (error + nat) \<times> 'f proc" where
  "get_study_sample e study sz sid p =
     (let key = (study, sz, sid) in
      case map_of (memo p) key of
        Some a \<Rightarrow> (Inr a, p\<lparr>memo := (key, a) # filter (\<lambda>(k, b). k \<noteq> key) (memo p)\<rparr>)
      | None \<Rightarrow>
        (case compute_study_sample e study sz sid of
           Inl err \<Rightarrow> (Inl err, p)
         | Inr df \<Rightarrow>
           (let a = next_obj p
            in (Inr a, p\<lparr>objects := (objects p)(a := df), next_obj := a + 1,
                          memo := take maxsize ((key, a) # memo p)\<rparr>))))"

text \<open>The data set a call of \<open>get_study_sample\<close> hands back: the frame at the address.\<close>

definition returned_sample ::
  "('g, 'f) env \<Rightarrow> string \<Rightarrow> int \<Rightarrow> int \<Rightarrow> 'f proc \<Rightarrow> error + 'f dataframe" where
  "returned_sample e study sz sid p =
     (case get_study_sample e study sz sid p of
        (Inl err, q) \<Rightarrow> Inl err
      | (Inr a, q) \<Rightarrow> Inr (objects q a))"

section \<open>The file cache (get_data_file, create_data_file)\<close>

text \<open>
  One call of \<open>get_data_file(study, size, format, sid, wait)\<close>, with the worker process
  that serves it. \<open>study\<close>, \<open>size\<close>, \<open>format\<close> and \<open>sid\<close> are the strings of the request.
\<close>

record request =
  req_study :: string
  req_size :: string
  req_format :: string
  req_sid :: string
  req_wait :: bool
  req_pid :: nat

definition filename :: "request \<Rightarrow> string" where
  "filename r =
     ''tykhe_'' @ req_study r @ ''_'' @ req_size r @ ''_'' @ req_sid r @ ''.'' @ req_format r"

text \<open>\<open>path.join\<close> of the cache directory and a relative file name.\<close>

definition path_join :: "string \<Rightarrow> string \<Rightarrow> string" where
  "path_join dir name = dir @ ''/'' @ name"

text \<open>The name of the signal file of a data file: \<open>'creating-' + filename\<close>.\<close>

definition signal_name :: "string \<Rightarrow> string" where
  "signal_name name = ''creating-'' @ name"

definition signalpath :: "string \<Rightarrow> request \<Rightarrow> string" where
  "signalpath cache r = path_join cache (signal_name (filename r))"

definition pathname :: "string \<Rightarrow> request \<Rightarrow> string" where
  "pathname cache r = path_join cache (filename r)"

text \<open>
  What \<open>open(path.join(dir, name), 'x')\<close> raises apart from FileExistsError, for a name the
  code builds from the strings of the request: ValueError for a name with a null byte;
  FileNotFoundError for a name with a slash (the cache directory has no subdirectories, so
  a directory of the path is missing); OSError for a name or a path that is too long.
  \<open>None\<close>: the file can be created.
\<close>

definition open_error :: "('g, 'f) env \<Rightarrow> string \<Rightarrow> string \<Rightarrow> error option" where
  "open_error e dir name =
     (if CHR 0x00 \<in> set name then Some ValueError
      else if CHR ''/'' \<in> set name then Some FileNotFoundError
      else if name_max e < length name \<or> path_max e \<le> length (path_join dir name)
      then Some OSError
      else None)"

text \<open>
  The four \<open>if format == ...\<close> statements of \<open>create_data_file\<close>, in order. Any other
  format writes nothing. \<open>df.to_stata\<close> is given the frame as it is.
\<close>

definition write_file ::
  "string \<Rightarrow> 'f dataframe \<Rightarrow> string \<Rightarrow> 'f fs \<Rightarrow> (error + unit) \<times> 'f dataframe \<times> 'f fs" where
  "write_file fmt df pn files =
     (let (df1, files1) = (if fmt = ''csv'' then df_to_csv df pn files else (df, files));
          (df2, files2) = (if fmt = ''xlsx'' then df_to_xlsx df1 pn files1 else (df1, files1));
          files3 = (if fmt = ''dta'' then files2(pn \<mapsto> Dta df2) else files2)
      in if fmt = ''sav'' then df_to_sav df2 pn files3 else (Inr (), df2, files3))"

text \<open>
  Where a call of \<open>get_data_file\<close> stands. \<open>Start\<close>: before \<open>open(signalpath, 'x')\<close>.
  \<open>Opened\<close>: the signal file was created, before \<open>path.isfile(pathname)\<close>.
  \<open>Remove_Signal\<close>: the data file was seen, before \<open>unlink(signalpath)\<close>.
  \<open>Spawn\<close>: the data file was not seen, before the thread is built and started.
  \<open>Join\<close>: in \<open>thread.join()\<close>. \<open>Poll\<close>: in the \<open>while path.isfile(signalpath)\<close> loop.
  \<open>Returned\<close>: the call returned the file name. \<open>Open_Failed\<close>: \<open>open\<close> raised
  something else than FileExistsError and the call raised it on; no signal file was
  created. \<open>Raised\<close>: the call raised after it had created the signal file.
\<close>

datatype caller_pc =
    Start | Opened | Remove_Signal | Spawn | Join | Poll
  | Returned string | Open_Failed error | Raised error

text \<open>
  Where the thread running \<open>create_data_file\<close> stands. \<open>Idle\<close>: not started.
  \<open>Sampling size sid\<close>: started with the converted arguments, before the first line.
  \<open>Writing a\<close>: \<open>get_study_sample\<close> returned the frame at address \<open>a\<close>.
  \<open>Signal\<close>: the file is written, before \<open>unlink(signalname)\<close>.
  \<open>Done\<close>: returned. \<open>Failed\<close>: ended by an exception.
\<close>

datatype worker_pc =
  Idle | Sampling int int | Writing nat | Signal | Done | Failed error

record thread =
  request :: request
  caller :: caller_pc
  worker :: worker_pc

text \<open>
  The cache directory shared by all worker processes, the memory of each process, the
  calls of \<open>get_data_file\<close> with their threads, and the path names printed by the first
  line of \<open>create_data_file\<close>, one per execution.
\<close>

record 'f system =
  files :: "'f fs"
  procs :: "nat \<Rightarrow> 'f proc"
  threads :: "nat \<Rightarrow> thread"
  created :: "string list"

text \<open>\<open>join\<close> returns once the thread has returned or was ended by an exception.\<close>

fun ended :: "worker_pc \<Rightarrow> bool" where
  "ended Done = True"
| "ended (Failed err) = True"
| "ended w = False"

text \<open>
  One atomic step of the call \<open>i\<close> of \<open>get_data_file\<close>. A call blocked in \<open>join\<close> or
  asleep in the polling loop leaves the state as it is.
\<close>

definition step_caller :: "('g, 'f) env \<Rightarrow> string \<Rightarrow> nat \<Rightarrow> 'f system \<Rightarrow> 'f system" where
  "step_caller e cache i s =
     (let t = threads s i; r = request t;
          sp = signalpath cache r; pn = pathname cache r
      in case caller t of
           Start \<Rightarrow>
             (case open_error e cache (signal_name (filename r)) of
                Some err \<Rightarrow> s\<lparr>threads := (threads s)(i := t\<lparr>caller := Open_Failed err\<rparr>)\<rparr>
              | None \<Rightarrow>
                  if files s sp = None
                  then s\<lparr>files := (files s)(sp \<mapsto> Empty),
                         threads := (threads s)(i := t\<lparr>caller := Opened\<rparr>)\<rparr>
                  else s\<lparr>threads := (threads s)
                         (i := t\<lparr>caller :=
                                 (if req_wait r then Poll else Returned (filename r))\<rparr>)\<rparr>)
         | Opened \<Rightarrow>
             s\<lparr>threads := (threads s)
                 (i := t\<lparr>caller := (if files s pn \<noteq> None then Remove_Signal else Spawn)\<rparr>)\<rparr>
         | Remove_Signal \<Rightarrow>
             (if files s sp = None
              then s\<lparr>threads := (threads s)(i := t\<lparr>caller := Raised FileNotFoundError\<rparr>)\<rparr>
              else s\<lparr>files := (files s)(sp := None),
                     threads := (threads s)(i := t\<lparr>caller := Returned (filename r)\<rparr>)\<rparr>)
         | Spawn \<Rightarrow>
             (case py_int e (req_size r) of
                None \<Rightarrow> s\<lparr>threads := (threads s)(i := t\<lparr>caller := Raised ValueError\<rparr>)\<rparr>
              | Some sz \<Rightarrow>
                (case py_int e (req_sid r) of
                   None \<Rightarrow> s\<lparr>threads := (threads s)(i := t\<lparr>caller := Raised ValueError\<rparr>)\<rparr>
                 | Some sid \<Rightarrow>
                     s\<lparr>threads := (threads s)
                         (i := t\<lparr>caller := (if req_wait r then Join else Returned (filename r)),
                                 worker := Sampling sz sid\<rparr>)\<rparr>))
         | Join \<Rightarrow>
             (if ended (worker t)
              then s\<lparr>threads := (threads s)(i := t\<lparr>caller := Returned (filename r)\<rparr>)\<rparr>
              else s)
         | Poll \<Rightarrow>
             (if files s sp \<noteq> None then s
              else s\<lparr>threads := (threads s)(i := t\<lparr>caller := Returned (filename r)\<rparr>)\<rparr>)
         | Returned f \<Rightarrow> s
         | Open_Failed err \<Rightarrow> s
         | Raised err \<Rightarrow> s)"

text \<open>
  One step of the thread of call \<open>i\<close> running \<open>create_data_file\<close>: the first line and
  \<open>get_study_sample\<close>; the writing of the file; the removal of the signal file.
\<close>

definition step_worker :: "('g, 'f) env \<Rightarrow> string \<Rightarrow> nat \<Rightarrow> 'f system \<Rightarrow> 'f system" where
  "step_worker e cache i s =
     (let t = threads s i; r = request t;
          sp = signalpath cache r; pn = pathname cache r;
          p = procs s (req_pid r)
      in case worker t of
           Sampling sz sid \<Rightarrow>
             (case get_study_sample e (req_study r) sz sid p of
                (Inl err, p1) \<Rightarrow>
                  s\<lparr>procs := (procs s)(req_pid r := p1), created := created s @ [pn],
                    threads := (threads s)(i := t\<lparr>worker := Failed err\<rparr>)\<rparr>
              | (Inr a, p1) \<Rightarrow>
                  s\<lparr>procs := (procs s)(req_pid r := p1), created := created s @ [pn],
                    threads := (threads s)(i := t\<lparr>worker := Writing a\<rparr>)\<rparr>)
         | Writing a \<Rightarrow>
             (case write_file (req_format r) (objects p a) pn (files s) of
                (Inl err, df1, files1) \<Rightarrow>
                  s\<lparr>files := files1,
                    procs := (procs s)(req_pid r := p\<lparr>objects := (objects p)(a := df1)\<rparr>),
                    threads := (threads s)(i := t\<lparr>worker := Failed err\<rparr>)\<rparr>
              | (Inr u, df1, files1) \<Rightarrow>
                  s\<lparr>files := files1,
                    procs := (procs s)(req_pid r := p\<lparr>objects := (objects p)(a := df1)\<rparr>),
                    threads := (threads s)(i := t\<lparr>worker := Signal\<rparr>)\<rparr>)
         | Signal \<Rightarrow>
             (if files s sp = None
              then s\<lparr>threads := (threads s)(i := t\<lparr>worker := Failed FileNotFoundError\<rparr>)\<rparr>
              else s\<lparr>files := (files s)(sp := None),
                     threads := (threads s)(i := t\<lparr>worker := Done\<rparr>)\<rparr>)
         | Idle \<Rightarrow> s
         | Done \<Rightarrow> s
         | Failed err \<Rightarrow> s)"

text \<open>
  A schedule names, step by step, which call or which thread moves next. Any interleaving
  of any number of calls in any number of processes is a schedule.
\<close>

datatype actor = Caller nat | Worker nat

fun step :: "('g, 'f) env \<Rightarrow> string \<Rightarrow> actor \<Rightarrow> 'f system \<Rightarrow> 'f system" where
  "step e cache (Caller i) s = step_caller e cache i s"
| "step e cache (Worker i) s = step_worker e cache i s"

definition run :: "('g, 'f) env \<Rightarrow> string \<Rightarrow> actor list \<Rightarrow> 'f system \<Rightarrow> 'f system" where
  "run e cache sched s = fold (step e cache) sched s"

text \<open>
  The start: an empty cache directory, nothing printed, every call before its first
  step, the processes with nothing memoized.
\<close>

definition fresh_proc :: "'f proc" where
  "fresh_proc = \<lparr>objects = (\<lambda>a. []), next_obj = 0, memo = []\<rparr>"

definition init :: "(nat \<Rightarrow> request) \<Rightarrow> 'f system" where
  "init reqs =
     \<lparr>files = Map.empty, procs = (\<lambda>pid. fresh_proc),
      threads = (\<lambda>i. \<lparr>request = reqs i, caller = Start, worker = Idle\<rparr>),
      created = []\<rparr>"

section \<open>A stand-in environment for running the model\<close>

text \<open>
  To evaluate the definitions on concrete inputs the environment has to be given. This
  one is deterministic and small: the generator state is a counter, a double is an
  integer, \<open>int\<close> accepts decimal digits with an optional minus sign, and the file
  system has the limits of Linux.
\<close>

definition digits_value :: "string \<Rightarrow> nat" where
  "digits_value s = foldl (\<lambda>a c. 10 * a + (of_char c - 48)) 0 s"

definition parse_digits :: "string \<Rightarrow> int option" where
  "parse_digits s =
     (if s \<noteq> [] \<and> list_all (\<lambda>c. 48 \<le> (of_char c :: nat) \<and> (of_char c :: nat) \<le> 57) s
      then Some (int (digits_value s)) else None)"

definition parse_decimal :: "string \<Rightarrow> int option" where
  "parse_decimal s =
     (case s of
        c # rest \<Rightarrow>
          if c = CHR ''-'' then map_option uminus (parse_digits rest) else parse_digits s
      | [] \<Rightarrow> None)"

definition test_env :: "(nat, int) env" where
  "test_env =
     \<lparr>default_rng = (\<lambda>seed. if seed < 0 then None else Some (nat seed)),
      integers = (\<lambda>n g. (g mod n, g + 1)),
      choice = (\<lambda>n p g. (g mod n, g + 1)),
      normal = (\<lambda>loc scale g. (loc + scale * int g, g + 1)),
      multivariate_normal = (\<lambda>mu Sigma g. (map (\<lambda>m. m + int g) mu, g + 1)),
      fadd = (\<lambda>x y. x + y),
      fexp = (\<lambda>x. x),
      fround = (\<lambda>x. x),
      flit = (\<lambda>m k. m),
      simon_mu = [0, 0, 0, 0],
      simon_Sigma = [],
      py_int = parse_decimal,
      name_max = 255,
      path_max = 4096\<rparr>"

section \<open>The three states of a cache entry\<close>

text \<open>The formats for which \<open>create_data_file\<close> writes a file.\<close>

definition writes_file :: "string \<Rightarrow> bool" where
  "writes_file fmt = (fmt = ''csv'' \<or> fmt = ''xlsx'' \<or> fmt = ''dta'' \<or> fmt = ''sav'')"

text \<open>
  A thread owns the signal file from the moment its \<open>open(signalpath, 'x')\<close> succeeded
  until it unlinks the file; the ownership passes from the call to the thread it starts.
  A call or a thread ended by an exception keeps it for ever.
\<close>

fun call_owns :: "caller_pc \<Rightarrow> bool" where
  "call_owns Opened = True"
| "call_owns Remove_Signal = True"
| "call_owns Spawn = True"
| "call_owns (Raised err) = True"
| "call_owns c = False"

fun raised :: "caller_pc \<Rightarrow> bool" where
  "raised (Raised err) = True"
| "raised c = False"

fun thread_owns :: "worker_pc \<Rightarrow> bool" where
  "thread_owns (Sampling sz sid) = True"
| "thread_owns (Writing a) = True"
| "thread_owns Signal = True"
| "thread_owns (Failed err) = True"
| "thread_owns w = False"

definition owns_signal :: "thread \<Rightarrow> bool" where
  "owns_signal t = (call_owns (caller t) \<or> thread_owns (worker t))"

text \<open>A thread before its \<open>get_study_sample\<close>, and a thread that has printed its first line.\<close>

fun sampling :: "worker_pc \<Rightarrow> bool" where
  "sampling (Sampling sz sid) = True"
| "sampling w = False"

fun printed :: "worker_pc \<Rightarrow> bool" where
  "printed Idle = False"
| "printed (Sampling sz sid) = False"
| "printed w = True"

fun failed :: "worker_pc \<Rightarrow> bool" where
  "failed (Failed err) = True"
| "failed w = False"

fun returned :: "caller_pc \<Rightarrow> bool" where
  "returned (Returned f) = True"
| "returned c = False"

text \<open>
  The invariant of the protocol for one file name \<open>f\<close>, over the calls made for \<open>f\<close>,
  part by part. The data file of \<open>f\<close> is \<open>path_join cache f\<close>, its signal file
  \<open>path_join cache (signal_name f)\<close>.
\<close>

text \<open>At most one thread owns the signal file.\<close>

definition one_owner :: "string \<Rightarrow> 'f system \<Rightarrow> bool" where
  "one_owner f s =
     (\<forall>i j. filename (request (threads s i)) = f \<and> filename (request (threads s j)) = f
            \<and> owns_signal (threads s i) \<and> owns_signal (threads s j) \<longrightarrow> i = j)"

text \<open>While a thread owns it, the signal file exists.\<close>

definition owner_has_signal :: "string \<Rightarrow> string \<Rightarrow> 'f system \<Rightarrow> bool" where
  "owner_has_signal cache f s =
     (\<forall>i. filename (request (threads s i)) = f \<and> owns_signal (threads s i)
          \<longrightarrow> files s (path_join cache (signal_name f)) \<noteq> None)"

text \<open>A call about to start the creation, and a thread before its sample, have no data file.\<close>

definition starter_sees_no_file :: "string \<Rightarrow> string \<Rightarrow> 'f system \<Rightarrow> bool" where
  "starter_sees_no_file cache f s =
     (\<forall>i. filename (request (threads s i)) = f
            \<and> (caller (threads s i) = Spawn \<or> sampling (worker (threads s i)))
          \<longrightarrow> files s (path_join cache f) = None)"

text \<open>A thread past the writing has left the data file.\<close>

definition written_file_stays :: "string \<Rightarrow> string \<Rightarrow> 'f system \<Rightarrow> bool" where
  "written_file_stays cache f s =
     (\<forall>i. filename (request (threads s i)) = f
            \<and> (worker (threads s i) = Signal \<or> worker (threads s i) = Done)
          \<longrightarrow> files s (path_join cache f) \<noteq> None)"

text \<open>A thread runs only after its call started it.\<close>

definition thread_after_call :: "string \<Rightarrow> 'f system \<Rightarrow> bool" where
  "thread_after_call f s =
     (\<forall>i. filename (request (threads s i)) = f \<and> worker (threads s i) \<noteq> Idle
          \<longrightarrow> caller (threads s i) = Join \<or> returned (caller (threads s i)))"

text \<open>At most one thread running \<open>create_data_file\<close> was ever started.\<close>

definition one_thread :: "string \<Rightarrow> 'f system \<Rightarrow> bool" where
  "one_thread f s =
     (\<forall>i j. filename (request (threads s i)) = f \<and> filename (request (threads s j)) = f
            \<and> worker (threads s i) \<noteq> Idle \<and> worker (threads s j) \<noteq> Idle \<longrightarrow> i = j)"

text \<open>A printed path was printed by a thread, and the path of \<open>f\<close> is printed at most once.\<close>

definition printed_by_thread :: "string \<Rightarrow> string \<Rightarrow> 'f system \<Rightarrow> bool" where
  "printed_by_thread cache f s =
     (path_join cache f \<in> set (created s)
        \<longrightarrow> (\<exists>j. filename (request (threads s j)) = f \<and> printed (worker (threads s j))))"

definition printed_once :: "string \<Rightarrow> string \<Rightarrow> 'f system \<Rightarrow> bool" where
  "printed_once cache f s = (count_list (created s) (path_join cache f) \<le> 1)"

text \<open>A call that is to remove the signal file saw the data file.\<close>

definition remover_saw_file :: "string \<Rightarrow> string \<Rightarrow> 'f system \<Rightarrow> bool" where
  "remover_saw_file cache f s =
     (\<forall>i. filename (request (threads s i)) = f \<and> caller (threads s i) = Remove_Signal
          \<longrightarrow> files s (path_join cache f) \<noteq> None)"

text \<open>A polling call finds the signal file or the data file.\<close>

definition poller_has_file :: "string \<Rightarrow> string \<Rightarrow> 'f system \<Rightarrow> bool" where
  "poller_has_file cache f s =
     (\<forall>i. filename (request (threads s i)) = f \<and> caller (threads s i) = Poll
          \<longrightarrow> files s (path_join cache (signal_name f)) \<noteq> None
              \<or> files s (path_join cache f) \<noteq> None)"

text \<open>A waiting call has returned with the data file there, unless its own thread failed.\<close>

definition waiter_has_file :: "string \<Rightarrow> string \<Rightarrow> 'f system \<Rightarrow> bool" where
  "waiter_has_file cache f s =
     (\<forall>i. filename (request (threads s i)) = f \<and> returned (caller (threads s i))
            \<and> req_wait (request (threads s i))
          \<longrightarrow> files s (path_join cache f) \<noteq> None \<or> failed (worker (threads s i)))"

definition cache_inv :: "string \<Rightarrow> string \<Rightarrow> 'f system \<Rightarrow> bool" where
  "cache_inv cache f s =
     (one_owner f s \<and> owner_has_signal cache f s \<and> starter_sees_no_file cache f s
      \<and> written_file_stays cache f s \<and> thread_after_call f s \<and> one_thread f s
      \<and> printed_by_thread cache f s \<and> printed_once cache f s
      \<and> remover_saw_file cache f s \<and> poller_has_file cache f s
      \<and> waiter_has_file cache f s)"

text \<open>Every call made for the file name \<open>f\<close> asks for a format that is written.\<close>

definition all_written :: "string \<Rightarrow> 'f system \<Rightarrow> bool" where
  "all_written f s =
     (\<forall>i. filename (request (threads s i)) = f
          \<longrightarrow> writes_file (req_format (request (threads s i))))"

text \<open>While the signal file exists, a thread owns it.\<close>

definition signal_has_owner :: "string \<Rightarrow> string \<Rightarrow> 'f system \<Rightarrow> bool" where
  "signal_has_owner cache f s =
     (files s (path_join cache (signal_name f)) \<noteq> None
        \<longrightarrow> (\<exists>j. filename (request (threads s j)) = f \<and> owns_signal (threads s j)))"

text \<open>
  The entry of the file name \<open>f\<close> is present and at rest: the data file exists, no call
  for \<open>f\<close> is about to start a creation or has raised while it owned the signal file,
  and no thread for \<open>f\<close> is running or has failed.
\<close>

definition present :: "string \<Rightarrow> string \<Rightarrow> 'f system \<Rightarrow> bool" where
  "present cache f s =
     (files s (path_join cache f) \<noteq> None
      \<and> (\<forall>i. filename (request (threads s i)) = f
             \<longrightarrow> caller (threads s i) \<noteq> Spawn \<and> \<not> raised (caller (threads s i))
                 \<and> (worker (threads s i) = Idle \<or> worker (threads s i) = Done)))"

text \<open>
  A call made for \<open>f\<close> while the entry is present: it is before \<open>open\<close>, owns the signal
  file on the way to removing it, polls (only a call with \<open>wait\<close> does), or has returned
  \<open>f\<close>. \<open>steps_left\<close> bounds the steps such a call still takes when nothing holds it up.
\<close>

fun rerequesting :: "string \<Rightarrow> bool \<Rightarrow> caller_pc \<Rightarrow> bool" where
  "rerequesting f w Start = True"
| "rerequesting f w Opened = True"
| "rerequesting f w Remove_Signal = True"
| "rerequesting f w Poll = w"
| "rerequesting f w (Returned g) = (g = f)"
| "rerequesting f w c = False"

fun steps_left :: "caller_pc \<Rightarrow> nat" where
  "steps_left Start = 3"
| "steps_left Opened = 2"
| "steps_left Remove_Signal = 1"
| "steps_left Poll = 1"
| "steps_left c = 0"

text \<open>
  The entry of \<open>f\<close> is present and at rest, the signal file has an owner exactly while it
  exists, and the file system takes the name of the signal file.
\<close>

definition at_rest :: "('g, 'f) env \<Rightarrow> string \<Rightarrow> string \<Rightarrow> 'f system \<Rightarrow> bool" where
  "at_rest e cache f s =
     (present cache f s \<and> one_owner f s \<and> owner_has_signal cache f s
      \<and> thread_after_call f s \<and> signal_has_owner cache f s
      \<and> open_error e cache (signal_name f) = None)"

text \<open>
  How a data file comes to exist: a thread of a call for its name was started, and the
  call that started it had opened the signal file before, so the file system takes the
  name of the signal file.
\<close>

fun past_open :: "caller_pc \<Rightarrow> bool" where
  "past_open Opened = True"
| "past_open Remove_Signal = True"
| "past_open Spawn = True"
| "past_open c = False"

definition signal_opened :: "('g, 'f) env \<Rightarrow> string \<Rightarrow> string \<Rightarrow> 'f system \<Rightarrow> bool" where
  "signal_opened e cache f s =
     (\<forall>j. filename (request (threads s j)) = f
            \<and> (past_open (caller (threads s j)) \<or> worker (threads s j) \<noteq> Idle)
          \<longrightarrow> open_error e cache (signal_name f) = None)"

definition file_has_thread :: "string \<Rightarrow> string \<Rightarrow> 'f system \<Rightarrow> bool" where
  "file_has_thread cache f s =
     (files s (path_join cache f) \<noteq> None
        \<longrightarrow> (\<exists>j. filename (request (threads s j)) = f \<and> worker (threads s j) \<noteq> Idle))"

section \<open>Properties of the sampler\<close>

subsection \<open>A shorter sample is a prefix of a longer one\<close>

lemma observations_append:
  "observations e st g (xs @ ys) = Inr (rows, g') \<Longrightarrow>
   \<exists>g1. observations e st g xs = Inr (take (length xs) rows, g1)"
proof (induction xs arbitrary: g rows)
  case Nil
  then show ?case by simp
next
  case (Cons i xs)
  from Cons.prems obtain row g1 rows' where
    row: "get_observation e st g i = Inr (row, g1)"
    and rest: "observations e st g1 (xs @ ys) = Inr (rows', g')"
    and rows: "rows = row # rows'"
    by (auto split: sum.splits prod.splits)
  from Cons.IH [OF rest] obtain g2 where
    "observations e st g1 xs = Inr (take (length xs) rows', g2)" by blast
  with row rows show ?case by simp
qed

lemma from_records_take:
  "from_records sample names = Inr df \<Longrightarrow>
   from_records (take m sample) names = Inr (map (\<lambda>(vn, cs). (vn, take m cs)) df)"
  by (auto simp: from_records_def take_map split: if_splits dest: in_set_takeD)

lemma the_floats_take:
  "the_floats cs = Inr xs \<Longrightarrow> the_floats (take m cs) = Inr (take m xs)"
proof (induction cs arbitrary: xs m rule: the_floats.induct)
  case 1
  then show ?case by simp
next
  case (2 x cs)
  then show ?case by (cases m) (auto split: sum.splits)
next
  case (3 s cs)
  then show ?case by simp
qed

lemma astype_col_take:
  "astype_col vt cs = Inr c \<Longrightarrow> astype_col vt (take m cs) = Inr (col_head m c)"
proof (cases vt)
  case Float
  assume c: "astype_col vt cs = Inr c"
  with Float obtain xs where xs: "the_floats cs = Inr xs" and "c = FloatCol xs"
    by (auto split: sum.splits)
  with the_floats_take [OF xs, of m] Float show ?thesis by simp
next
  case (Category cats ord)
  assume "astype_col vt cs = Inr c"
  with Category show ?thesis by (auto simp: take_map)
qed

lemma astype_take:
  "astype df vars = Inr out \<Longrightarrow>
   astype (map (\<lambda>(vn, cs). (vn, take m cs)) df) vars = Inr (df_head m out)"
proof (induction df arbitrary: out)
  case Nil
  then show ?case by (simp add: df_head_def)
next
  case (Cons p df)
  obtain vn cs where p: "p = (vn, cs)" by (cases p)
  from Cons.prems p obtain vt c out' where
    vt: "map_of vars vn = Some vt" and c: "astype_col vt cs = Inr c"
    and out': "astype df vars = Inr out'" and out: "out = (vn, c) # out'"
    by (auto split: option.splits sum.splits)
  from Cons.IH [OF out'] astype_col_take [OF c, of m] vt p out
  show ?case by (simp add: df_head_def)
qed

text \<open>
  C4. For every study, every state of the generator (so every seed) and sizes \<open>M < N\<close>:
  when the sample of size \<open>N\<close> is produced, the sample of size \<open>M\<close> is produced too and
  is, column by column and in order, the first \<open>M\<close> rows of the sample of size \<open>N\<close>.
\<close>

theorem get_sample_prefix:
  assumes "get_sample e st N g = Inr dfN" and "M < N"
  shows "get_sample e st M g = Inr (df_head (nat M) dfN)"
proof -
  from assms(1) obtain sample g1 df where
    obs: "observations e st g [0..<nat N] = Inr (sample, g1)"
    and fr: "from_records sample (map fst (variables st)) = Inr df"
    and as: "astype df (variables st) = Inr dfN"
    by (auto simp: get_sample_def Let_def split: sum.splits prod.splits)
  have "[0..<nat N] = [0..<nat M] @ [nat M..<nat N]"
    using assms(2) by (metis le_add_diff_inverse nat_mono less_imp_le upt_add_eq_append zero_le)
  with obs observations_append [of e st g "[0..<nat M]" "[nat M..<nat N]" sample g1]
  obtain g2 where
    obsM: "observations e st g [0..<nat M] = Inr (take (nat M) sample, g2)"
    by auto
  show ?thesis
    using obsM from_records_take [OF fr, of "nat M"] astype_take [OF as, of "nat M"]
    by (simp add: get_sample_def)
qed

theorem get_sample_prefix_witness:
  "get_sample test_env Levels 3 7 =
     Inr [(''sex'', CatCol False sex [1, 1, 1]),
          (''happiness'', CatCol True happiness [3, 2, 1]),
          (''colour'', CatCol False colour [9, 3, 7]),
          (''height'', FloatCol [72913, 100013, 127113])]
   \<and> (2::int) < 3
   \<and> get_sample test_env Levels 2 7 =
     Inr [(''sex'', CatCol False sex [1, 1]),
          (''happiness'', CatCol True happiness [3, 2]),
          (''colour'', CatCol False colour [9, 3]),
          (''height'', FloatCol [72913, 100013])]"
proof -
  have big: "get_sample test_env Levels 3 7 =
     Inr [(''sex'', CatCol False sex [1, 1, 1]),
          (''happiness'', CatCol True happiness [3, 2, 1]),
          (''colour'', CatCol False colour [9, 3, 7]),
          (''height'', FloatCol [72913, 100013, 127113])]"
    by code_simp
  have lt: "(2::int) < 3" by simp
  from get_sample_prefix [OF big lt] big lt show ?thesis
    by (simp add: df_head_def)
qed

subsection \<open>The two-group study alternates the groups\<close>

lemma two_sample_observations:
  "\<exists>xs g'. length xs = length idx \<and>
     observations e (TwoSample d) g idx =
       Inr (map (\<lambda>(i, x). [St (if even i then ''A'' else ''B''), Fl x]) (zip idx xs), g')"
proof (induction idx arbitrary: g)
  case Nil
  then show ?case by simp
next
  case (Cons i idx)
  obtain x g1 where obs: "get_observation e (TwoSample d) g i =
      Inr ([St (if even i then ''A'' else ''B''), Fl x], g1)"
  proof (cases "normal e (flit e 0 0) (flit e 1 0) g")
    case (Pair x g1)
    show ?thesis
    proof (cases "even i")
      case True
      then have "i mod 2 = 0" by presburger
      with Pair True that [of x g1] show ?thesis
        by (simp add: py_index_def groups_def)
    next
      case False
      then have "i mod 2 = 1" by presburger
      with Pair False that [of "fadd e x d" g1] show ?thesis
        by (simp add: py_index_def groups_def)
    qed
  qed
  from Cons.IH [of g1] obtain xs g' where
    "length xs = length idx"
    "observations e (TwoSample d) g1 idx =
       Inr (map (\<lambda>(i, x). [St (if even i then ''A'' else ''B''), Fl x]) (zip idx xs), g')"
    by blast
  with obs have "length (x # xs) = length (i # idx) \<and>
     observations e (TwoSample d) g (i # idx) =
       Inr (map (\<lambda>(i, x). [St (if even i then ''A'' else ''B''), Fl x]) (zip (i # idx) (x # xs)), g')"
    by simp
  then show ?case by blast
qed

lemma two_sample_frame:
  assumes "length xs = length idx"
  shows "from_records (map (\<lambda>(i, x). [St (if even i then ''A'' else ''B''), Fl x]) (zip idx xs))
           [''group'', ''x''] =
         Inr [(''group'', map (\<lambda>i. St (if even i then ''A'' else ''B'')) idx),
              (''x'', map Fl xs)]"
proof -
  have upt2: "[0..<2] = [0, Suc 0]" by (simp add: upt_rec)
  have g: "map ((\<lambda>r. r ! 0) \<circ> (\<lambda>(i, x). [St (if even i then ''A'' else ''B''), Fl x])) (zip idx xs)
        = map (\<lambda>i. St (if even i then ''A'' else ''B'')) idx"
    using assms by (induction xs idx rule: list_induct2) auto
  have x: "map ((\<lambda>r. r ! Suc 0) \<circ> (\<lambda>(i, x). [St (if even i then ''A'' else ''B''), Fl x])) (zip idx xs)
        = map Fl xs"
    using assms by (induction xs idx rule: list_induct2) auto
  show ?thesis
    using g x by (auto simp: from_records_def upt2)
qed

lemma the_floats_Fl: "the_floats (map Fl xs) = Inr xs"
  by (induction xs) auto

lemma two_sample_codes:
  "map (cat_code [''A'', ''B'']) (map (\<lambda>i. St (if even i then ''A'' else ''B'')) idx)
     = map (\<lambda>i. if even i then 0 else 1) idx"
  by (induction idx) auto

lemma two_sample_groups:
  "\<exists>xs. get_sample e (TwoSample d) n g =
     Inr [(''group'', CatCol False [''A'', ''B''] (map (\<lambda>i. if even i then 0 else 1) [0..<nat n])),
          (''x'', FloatCol xs)]"
proof -
  obtain xs g' where len: "length xs = length [0..<nat n]" and
    obs: "observations e (TwoSample d) g [0..<nat n] =
       Inr (map (\<lambda>(i, x). [St (if even i then ''A'' else ''B''), Fl x]) (zip [0..<nat n] xs), g')"
    using two_sample_observations [of "[0..<nat n]" e d g] by blast
  have "get_sample e (TwoSample d) n g =
     Inr [(''group'', CatCol False [''A'', ''B''] (map (\<lambda>i. if even i then 0 else 1) [0..<nat n])),
          (''x'', FloatCol xs)]"
    using obs two_sample_frame [OF len] two_sample_codes [of "[0..<nat n]"]
    by (simp add: get_sample_def groups_def the_floats_Fl)
  then show ?thesis by blast
qed

text \<open>
  C10. The two-group study, sampled with size 4 from any state of the generator (the one
  seeded with 42 among them) and with any effect size, yields the group column
  A, B, A, B: the categorical codes are 0, 1, 0, 1 over the categories A, B. For every
  size the code of row \<open>i\<close> is 0 (group A) for even \<open>i\<close> and 1 (group B) for odd \<open>i\<close>,
  whatever the generator draws.
\<close>

theorem two_sample_group_sequence:
  "(\<exists>xs. get_sample e (TwoSample d) 4 g =
      Inr [(''group'', CatCol False [''A'', ''B''] [0, 1, 0, 1]), (''x'', FloatCol xs)])
   \<and> cat_values [''A'', ''B''] [0, 1, 0, 1] = [Some ''A'', Some ''B'', Some ''A'', Some ''B'']
   \<and> (\<exists>xs. get_sample e (TwoSample d) n g =
      Inr [(''group'', CatCol False [''A'', ''B'']
              (map (\<lambda>i. if even i then 0 else 1) [0..<nat n])),
           (''x'', FloatCol xs)])"
proof -
  have "map (\<lambda>i. if even i then 0 else 1) [0..<nat 4] = [0, 1, 0, 1::int]"
    by (simp add: upt_rec)
  with two_sample_groups [of e d 4 g] have four:
    "\<exists>xs. get_sample e (TwoSample d) 4 g =
      Inr [(''group'', CatCol False [''A'', ''B''] [0, 1, 0, 1]), (''x'', FloatCol xs)]"
    by simp
  have "cat_values [''A'', ''B''] [0, 1, 0, 1] = [Some ''A'', Some ''B'', Some ''A'', Some ''B'']"
    by (simp add: cat_values_def)
  with four two_sample_groups [of e d n g] show ?thesis by blast
qed

theorem two_sample_group_sequence_witness:
  "get_sample test_env (TwoSample 5) 4 42 =
     Inr [(''group'', CatCol False [''A'', ''B''] [0, 1, 0, 1]),
          (''x'', FloatCol [42, 48, 44, 50])]"
proof -
  have run: "get_sample test_env (TwoSample 5) 4 42 =
     Inr [(''group'', CatCol False [''A'', ''B''] [0, 1, 0, 1]),
          (''x'', FloatCol [42, 48, 44, 50])]"
    by code_simp
  from two_sample_group_sequence [of test_env 5 42 4] run show ?thesis by simp
qed

section \<open>Properties of the file materializers\<close>

subsection \<open>The display format\<close>

lemma ceil_log10_eq:
  assumes "0 < k" and "10 ^ (k - 1) < n" and "n \<le> 10 ^ k"
  shows "ceil_log10 n = Inr k"
proof -
  have n0: "0 < n" using assms(2) by (cases n) auto
  have up: "log 10 (real n) \<le> real k"
  proof -
    have "real n \<le> 10 ^ k" using assms(3) by (metis of_nat_le_iff of_nat_numeral of_nat_power)
    then have "log 10 (real n) \<le> log 10 (10 ^ k)" using n0 by (simp del: log_pow_cancel)
    then show ?thesis by simp
  qed
  have lo: "real (k - 1) < log 10 (real n)"
  proof -
    have "(10::real) ^ (k - 1) < real n" using assms(2) by (metis of_nat_less_iff of_nat_numeral of_nat_power)
    then have "log 10 (10 ^ (k - 1)) < log 10 (real n)" by (simp del: log_pow_cancel)
    then show ?thesis by simp
  qed
  have "\<lceil>log 10 (real n)\<rceil> = int k"
    using up lo assms(1) by (simp add: ceiling_eq_iff of_nat_diff)
  then show ?thesis using n0 by (simp add: ceil_log10_def)
qed

lemma find_first:
  "find P [0..<m] = Some k \<Longrightarrow> P k \<and> (\<forall>j<k. \<not> P j)"
  by (auto simp: find_Some_iff)

lemma find_none: "find P [0..<m] = None \<Longrightarrow> j < m \<Longrightarrow> \<not> P j"
  by (auto simp: find_None_iff)

text \<open>The same number by search: the least \<open>k\<close> with \<open>n \<le> 10 ^ k\<close>.\<close>

lemma ceil_log10_code [code]:
  "ceil_log10 n =
     (if n = 0 then Inl ValueError
      else case find (\<lambda>k. n \<le> 10 ^ k) [0..<Suc n] of
             Some k \<Rightarrow> Inr k
           | None \<Rightarrow> Inl ValueError)"
proof (cases "n = 0")
  case True
  then show ?thesis by (simp add: ceil_log10_def)
next
  case False
  have "n < 2 ^ n" by (rule less_exp)
  also have "(2::nat) ^ n \<le> 10 ^ n" by (rule power_mono) simp_all
  finally have le: "n \<le> 10 ^ n" by simp
  show ?thesis
  proof (cases "find (\<lambda>k. n \<le> 10 ^ k) [0..<Suc n]")
    case None
    from find_none [OF None, of n] le show ?thesis by simp
  next
    case (Some k)
    from find_first [OF Some] have pk: "n \<le> 10 ^ k" and least: "\<forall>j<k. \<not> n \<le> 10 ^ j"
      by auto
    have "ceil_log10 n = Inr k"
    proof (cases k)
      case 0
      with pk False have "n = 1" by simp
      with 0 show ?thesis by (simp add: ceil_log10_def)
    next
      case (Suc k')
      with least have "10 ^ (k - 1) < n" by (simp add: not_le)
      with Suc pk show ?thesis by (intro ceil_log10_eq) simp_all
    qed
    with Some False show ?thesis by simp
  qed
qed

lemma str_nat_digit: "n < 10 \<Longrightarrow> str_nat n = [digit_char n]"
  by (simp add: str_nat.simps)

lemma str_nat_1: "str_nat (Suc 0) = ''1''"
  by (simp add: str_nat_digit digit_char_def)

lemma str_nat_2: "str_nat 2 = ''2''"
  by (simp add: str_nat_digit digit_char_def)

lemma sav_format_2_10: "2 \<le> n \<Longrightarrow> n \<le> 10 \<Longrightarrow> sav_format n = Inr ''F1.0''"
  using ceil_log10_eq [of 1 n] by (simp add: sav_format_def str_nat_1)

lemma sav_format_11_100: "11 \<le> n \<Longrightarrow> n \<le> 100 \<Longrightarrow> sav_format n = Inr ''F2.0''"
  using ceil_log10_eq [of 2 n] by (simp add: sav_format_def str_nat_2)

subsection \<open>The loops over the variables\<close>

lemma df_get_df_set:
  "df_get (df_set df vn c) n = (if n = vn then map_option (\<lambda>x. c) (df_get df vn) else df_get df n)"
  by (induction df) (auto simp: df_get_def df_set_def)

lemma code_ordinal_other:
  "n \<noteq> varName \<Longrightarrow> df_get (code_ordinal df varName) n = df_get df n"
  by (auto simp: code_ordinal_def df_get_df_set split: option.splits column.splits bool.splits)

lemma code_ordinal_IntCol:
  "df_get df n = Some (IntCol codes) \<Longrightarrow> df_get (code_ordinal df varName) n = Some (IntCol codes)"
  by (auto simp: code_ordinal_def df_get_df_set split: option.splits column.splits bool.splits)

lemma code_ordinal_ordered:
  "df_get df n = Some (CatCol True cats codes) \<Longrightarrow>
   df_get (code_ordinal df n) n = Some (IntCol codes)"
  by (simp add: code_ordinal_def df_get_df_set)

lemma ordinals_to_codes_IntCol:
  "df_get df n = Some (IntCol codes) \<Longrightarrow>
   df_get (ordinals_to_codes vns df) n = Some (IntCol codes)"
  by (induction vns arbitrary: df) (simp_all add: code_ordinal_IntCol)

lemma ordinals_to_codes_ordered:
  "n \<in> set vns \<Longrightarrow> df_get df n = Some (CatCol True cats codes) \<Longrightarrow>
   df_get (ordinals_to_codes vns df) n = Some (IntCol codes)"
proof (induction vns arbitrary: df)
  case Nil
  then show ?case by simp
next
  case (Cons v vns)
  show ?case
  proof (cases "n = v")
    case True
    with Cons.prems show ?thesis
      by (simp add: ordinals_to_codes_IntCol code_ordinal_ordered)
  next
    case False
    with Cons show ?thesis by (simp add: code_ordinal_other)
  qed
qed

lemma df_get_names: "df_get df n = Some c \<Longrightarrow> n \<in> set (map fst df)"
  by (auto simp: df_get_def dest: map_of_SomeD intro: rev_image_eqI)

lemma sav_variable_other:
  "sav_variable v df info = (Inr info1, df1) \<Longrightarrow> n \<noteq> v \<Longrightarrow>
   df_get df1 n = df_get df n \<and> varTypes info1 n = varTypes info n
   \<and> measureLevels info1 n = measureLevels info n
   \<and> formats info1 n = formats info n \<and> valueLabels info1 n = valueLabels info n"
  by (auto simp: sav_variable_def df_get_df_set Let_def
           split: option.splits column.splits sum.splits if_splits)

lemma sav_prepare_other:
  "sav_prepare vns df info = (Inr info1, df1) \<Longrightarrow> n \<notin> set vns \<Longrightarrow>
   df_get df1 n = df_get df n \<and> varTypes info1 n = varTypes info n
   \<and> measureLevels info1 n = measureLevels info n
   \<and> formats info1 n = formats info n \<and> valueLabels info1 n = valueLabels info n"
proof (induction vns arbitrary: df info)
  case Nil
  then show ?case by simp
next
  case (Cons v vns)
  from Cons.prems(1) obtain info2 df2 where
    h: "sav_variable v df info = (Inr info2, df2)" and
    r: "sav_prepare vns df2 info2 = (Inr info1, df1)"
    by (auto split: prod.splits sum.splits)
  from Cons.prems(2) have "n \<noteq> v" "n \<notin> set vns" by auto
  with sav_variable_other [OF h, of n] Cons.IH [OF r] show ?case by simp
qed

lemma sav_variable_ordered:
  "sav_variable v df info = (Inr info1, df1) \<Longrightarrow>
   df_get df v = Some (CatCol True labels codes) \<Longrightarrow>
   df_get df1 v = Some (IntCol codes) \<and> varTypes info1 v = Some 0
   \<and> measureLevels info1 v = Some ''ordinal''
   \<and> Inr (the (formats info1 v)) = sav_format (length labels) \<and> formats info1 v \<noteq> None
   \<and> Inr (the (valueLabels info1 v)) = value_labels labels codes Map.empty
   \<and> valueLabels info1 v \<noteq> None"
  by (auto simp: sav_variable_def df_get_df_set Let_def split: sum.splits)

lemma sav_variable_nominal:
  "sav_variable v df info = (Inr info1, df1) \<Longrightarrow>
   df_get df v = Some (CatCol False labels codes) \<Longrightarrow>
   df_get df1 v = Some (StrCol (astype_str labels codes))
   \<and> measureLevels info1 v = Some ''nominal''
   \<and> Inr (the (varTypes info1 v)) = max_str_len labels codes \<and> varTypes info1 v \<noteq> None"
  by (auto simp: sav_variable_def df_get_df_set Let_def split: sum.splits)

lemma sav_prepare_at:
  assumes "sav_prepare vns df info = (Inr info1, df1)" and "distinct vns" and "n \<in> set vns"
  shows "\<exists>info2 df2 info3 df3. sav_variable n df2 info2 = (Inr info3, df3)
      \<and> df_get df2 n = df_get df n
      \<and> df_get df1 n = df_get df3 n \<and> varTypes info1 n = varTypes info3 n
      \<and> measureLevels info1 n = measureLevels info3 n
      \<and> formats info1 n = formats info3 n \<and> valueLabels info1 n = valueLabels info3 n"
  using assms
proof (induction vns arbitrary: df info)
  case Nil
  then show ?case by simp
next
  case (Cons v vns)
  from Cons.prems(1) obtain info2 df2 where
    h: "sav_variable v df info = (Inr info2, df2)" and
    r: "sav_prepare vns df2 info2 = (Inr info1, df1)"
    by (auto split: prod.splits sum.splits)
  show ?case
  proof (cases "n = v")
    case True
    with Cons.prems(2) have "n \<notin> set vns" by simp
    from sav_prepare_other [OF r this] h True show ?thesis by blast
  next
    case False
    with Cons.prems have "n \<in> set vns" "distinct vns" by auto
    from Cons.IH [OF r this(2) this(1)] sav_variable_other [OF h False]
    show ?thesis by metis
  qed
qed


lemma sav_prepare_ordered:
  assumes "sav_prepare vns df info = (Inr info1, df1)" and "distinct vns" and "n \<in> set vns"
    and "df_get df n = Some (CatCol True labels codes)"
  shows "df_get df1 n = Some (IntCol codes) \<and> varTypes info1 n = Some 0
   \<and> measureLevels info1 n = Some ''ordinal''
   \<and> Inr (the (formats info1 n)) = sav_format (length labels) \<and> formats info1 n \<noteq> None
   \<and> Inr (the (valueLabels info1 n)) = value_labels labels codes Map.empty
   \<and> valueLabels info1 n \<noteq> None"
proof -
  from sav_prepare_at [OF assms(1-3)] obtain info2 df2 info3 df3 where
    v: "sav_variable n df2 info2 = (Inr info3, df3)" and g: "df_get df2 n = df_get df n"
    and e: "df_get df1 n = df_get df3 n" "varTypes info1 n = varTypes info3 n"
      "measureLevels info1 n = measureLevels info3 n"
      "formats info1 n = formats info3 n" "valueLabels info1 n = valueLabels info3 n"
    by blast
  from g assms(4) have "df_get df2 n = Some (CatCol True labels codes)" by simp
  from sav_variable_ordered [OF v this] e show ?thesis by simp
qed

lemma sav_prepare_nominal:
  assumes "sav_prepare vns df info = (Inr info1, df1)" and "distinct vns" and "n \<in> set vns"
    and "df_get df n = Some (CatCol False labels codes)"
  shows "df_get df1 n = Some (StrCol (astype_str labels codes))
   \<and> measureLevels info1 n = Some ''nominal''
   \<and> Inr (the (varTypes info1 n)) = max_str_len labels codes \<and> varTypes info1 n \<noteq> None"
proof -
  from sav_prepare_at [OF assms(1-3)] obtain info2 df2 info3 df3 where
    v: "sav_variable n df2 info2 = (Inr info3, df3)" and g: "df_get df2 n = df_get df n"
    and e: "df_get df1 n = df_get df3 n" "varTypes info1 n = varTypes info3 n"
      "measureLevels info1 n = measureLevels info3 n"
    by blast
  from g assms(4) have "df_get df2 n = Some (CatCol False labels codes)" by simp
  from sav_variable_nominal [OF v this] e show ?thesis by simp
qed

lemma df_to_sav_written:
  assumes "df_to_sav df pn fs = (Inr (), df1, fs1)"
  shows "\<exists>info. sav_prepare (map fst df) df no_info = (Inr info, df1)
     \<and> fs1 = fs(pn \<mapsto> Sav \<lparr>sav_varNames = map fst df, sav_varTypes = varTypes info,
                             sav_valueLabels = valueLabels info,
                             sav_measureLevels = measureLevels info,
                             sav_formats = formats info, sav_data = df1\<rparr>)"
  using assms by (auto simp: df_to_sav_def Let_def split: prod.splits sum.splits)

lemma value_labels_spec:
  "value_labels labels codes m = Inr vl \<Longrightarrow>
   vl v = (if v \<in> set codes then (case py_index labels v of Inr l \<Rightarrow> Some l | Inl err \<Rightarrow> None)
           else m v)"
proof (induction codes arbitrary: m)
  case Nil
  then show ?case by simp
next
  case (Cons c codes)
  from Cons.prems obtain l where l: "py_index labels c = Inr l"
    and r: "value_labels labels codes (m(c \<mapsto> l)) = Inr vl"
    by (auto split: sum.splits)
  from Cons.IH [OF r] l show ?case by auto
qed

lemma value_labels_dom:
  "value_labels labels codes m = Inr vl \<Longrightarrow> dom vl = dom m \<union> set codes"
proof (induction codes arbitrary: m)
  case Nil
  then show ?case by simp
next
  case (Cons c codes)
  from Cons.prems obtain l where l: "py_index labels c = Inr l"
    and r: "value_labels labels codes (m(c \<mapsto> l)) = Inr vl"
    by (auto split: sum.splits)
  from Cons.IH [OF r] show ?case by auto
qed

lemma apply_len_spec:
  "apply_len vs = Inr ns \<Longrightarrow> None \<notin> set vs \<and> ns = map (\<lambda>v. length (the v)) vs"
proof (induction vs arbitrary: ns rule: apply_len.induct)
  case 1
  then show ?case by simp
next
  case (2 vs)
  then show ?case by simp
next
  case (3 l vs)
  then show ?case by (auto split: sum.splits)
qed

lemma py_max_spec: "py_max ns = Inr w \<Longrightarrow> ns \<noteq> [] \<and> w = Max (set ns)"
proof (cases ns)
  case Nil
  assume "py_max ns = Inr w"
  with Nil show ?thesis by simp
next
  case (Cons a list)
  assume "py_max ns = Inr w"
  with Cons have "w = fold max list a" by simp
  with Max.set_eq_fold [of a list] Cons show ?thesis by simp
qed

lemma max_str_len_spec:
  assumes "max_str_len cats codes = Inr w"
  shows "codes \<noteq> [] \<and> None \<notin> set (cat_values cats codes)
     \<and> w = Max (length ` set (astype_str cats codes))"
proof -
  from assms obtain ns where ns: "apply_len (cat_values cats codes) = Inr ns"
    and w: "py_max ns = Inr w"
    by (auto simp: max_str_len_def split: sum.splits)
  from apply_len_spec [OF ns] have none: "None \<notin> set (cat_values cats codes)"
    and nsv: "ns = map (\<lambda>v. length (the v)) (cat_values cats codes)" by auto
  have "map (\<lambda>v. length (the v)) (cat_values cats codes) = map length (astype_str cats codes)"
    using none by (auto simp: astype_str_def split: option.splits)
  with nsv have "set ns = length ` set (astype_str cats codes)" by simp
  moreover from py_max_spec [OF w] have "ns \<noteq> []" "w = Max (set ns)" by auto
  moreover from \<open>ns \<noteq> []\<close> nsv have "codes \<noteq> []" by (auto simp: cat_values_def)
  ultimately show ?thesis using none by simp
qed

subsection \<open>What the SPSS writer is given\<close>

text \<open>
  C8. In the file that \<open>df_to_sav\<close> writes, the display format of an ordered categorical
  column with \<open>n\<close> declared categories is \<open>F\<close>, then \<open>ceil(log10(n))\<close>, then \<open>.0\<close>; it is
  \<open>F1.0\<close> for 10 categories and \<open>F2.0\<close> for every \<open>n\<close> from 11 to 100.
\<close>

theorem sav_display_format:
  assumes "distinct (map fst df)"
    and "df_get df vn = Some (CatCol True labels codes)"
    and "df_to_sav df pn fs = (Inr (), df1, fs1)"
  shows "\<exists>sv fm. fs1 pn = Some (Sav sv) \<and> sav_formats sv vn = Some fm
     \<and> fm = ''F'' @ str_nat (nat \<lceil>log 10 (real (length labels))\<rceil>) @ ''.0''
     \<and> (length labels = 10 \<longrightarrow> fm = ''F1.0'')
     \<and> (11 \<le> length labels \<and> length labels \<le> 100 \<longrightarrow> fm = ''F2.0'')"
proof -
  from df_to_sav_written [OF assms(3)] obtain info where
    p: "sav_prepare (map fst df) df no_info = (Inr info, df1)"
    and f: "fs1 pn = Some (Sav \<lparr>sav_varNames = map fst df, sav_varTypes = varTypes info,
                             sav_valueLabels = valueLabels info,
                             sav_measureLevels = measureLevels info,
                             sav_formats = formats info, sav_data = df1\<rparr>)"
    by auto
  from assms(2) have m: "vn \<in> set (map fst df)" by (rule df_get_names)
  from sav_prepare_ordered [OF p assms(1) m assms(2)] obtain fm where
    fm: "formats info vn = Some fm" and sf: "sav_format (length labels) = Inr fm"
    by (cases "formats info vn") auto
  from sf have e: "fm = ''F'' @ str_nat (nat \<lceil>log 10 (real (length labels))\<rceil>) @ ''.0''"
    by (auto simp: sav_format_def ceil_log10_def split: if_splits)
  have a: "length labels = 10 \<longrightarrow> fm = ''F1.0''"
    using sf sav_format_2_10 [of "length labels"] by auto
  have b: "11 \<le> length labels \<and> length labels \<le> 100 \<longrightarrow> fm = ''F2.0''"
    using sf sav_format_11_100 [of "length labels"] by auto
  from f fm e a b show ?thesis by simp
qed

theorem sav_display_format_witness:
  "(\<exists>sv. snd (snd (df_to_sav ([(''c'', CatCol True colour [0, 3])] :: int dataframe) ''out.sav'' Map.empty))
            ''out.sav'' = Some (Sav sv) \<and> sav_formats sv ''c'' = Some ''F1.0'')
   \<and> (\<exists>sv. snd (snd (df_to_sav
          ([(''m'', CatCol True [''jan'', ''feb'', ''mar'', ''apr'', ''may'', ''jun'',
                                 ''jul'', ''aug'', ''sep'', ''oct'', ''nov'', ''dec''] [11])]
             :: int dataframe)
          ''out.sav'' Map.empty))
            ''out.sav'' = Some (Sav sv) \<and> sav_formats sv ''m'' = Some ''F2.0'')"
proof -
  let ?d10 = "[(''c'', CatCol True colour [0 :: int, 3])] :: int dataframe"
  let ?months = "[''jan'', ''feb'', ''mar'', ''apr'', ''may'', ''jun'',
                  ''jul'', ''aug'', ''sep'', ''oct'', ''nov'', ''dec'']"
  let ?d12 = "[(''m'', CatCol True ?months [11 :: int])] :: int dataframe"
  obtain df1 fs1 where r10: "df_to_sav ?d10 ''out.sav'' Map.empty = (Inr (), df1, fs1)"
    by (simp add: df_to_sav_def sav_variable_def df_get_def df_set_def no_info_def
                  py_index_def sav_format_2_10 colour_def)
  obtain df2 fs2 where r12: "df_to_sav ?d12 ''out.sav'' Map.empty = (Inr (), df2, fs2)"
    by (simp add: df_to_sav_def sav_variable_def df_get_def df_set_def no_info_def
                  py_index_def sav_format_11_100)
  have g10: "df_get ?d10 ''c'' = Some (CatCol True colour [0, 3])" by (simp add: df_get_def)
  have g12: "df_get ?d12 ''m'' = Some (CatCol True ?months [11])" by (simp add: df_get_def)
  have d10: "distinct (map fst ?d10)" by simp
  have d12: "distinct (map fst ?d12)" by simp
  have l10: "length colour = 10" by (simp add: colour_def)
  from sav_display_format [OF d10 g10 r10] l10 r10
  have a: "\<exists>sv. snd (snd (df_to_sav ?d10 ''out.sav'' Map.empty)) ''out.sav'' = Some (Sav sv)
                \<and> sav_formats sv ''c'' = Some ''F1.0''"
    by auto
  from sav_display_format [OF d12 g12 r12] r12
  have b: "\<exists>sv. snd (snd (df_to_sav ?d12 ''out.sav'' Map.empty)) ''out.sav'' = Some (Sav sv)
                \<and> sav_formats sv ''m'' = Some ''F2.0''"
    by auto
  from a b show ?thesis by blast
qed

text \<open>
  C9. In the file that \<open>df_to_sav\<close> writes, an unordered categorical column is stored as
  the strings of its rows, and its declared width is the length of the longest label that
  occurs in those rows (no row is missing when the call succeeds). The witness has the
  labels red and green in the rows, width 5, while the longest declared label has
  length 6.
\<close>

theorem nominal_width:
  assumes "distinct (map fst df)"
    and "df_get df vn = Some (CatCol False cats codes)"
    and "df_to_sav df pn fs = (Inr (), df1, fs1)"
  shows "\<exists>sv. fs1 pn = Some (Sav sv)
     \<and> df_get (sav_data sv) vn = Some (StrCol (astype_str cats codes))
     \<and> None \<notin> set (cat_values cats codes)
     \<and> sav_varTypes sv vn = Some (Max (length ` set (astype_str cats codes)))
     \<and> sav_measureLevels sv vn = Some ''nominal''"
proof -
  from df_to_sav_written [OF assms(3)] obtain info where
    p: "sav_prepare (map fst df) df no_info = (Inr info, df1)"
    and f: "fs1 pn = Some (Sav \<lparr>sav_varNames = map fst df, sav_varTypes = varTypes info,
                             sav_valueLabels = valueLabels info,
                             sav_measureLevels = measureLevels info,
                             sav_formats = formats info, sav_data = df1\<rparr>)"
    by auto
  from assms(2) have m: "vn \<in> set (map fst df)" by (rule df_get_names)
  from sav_prepare_nominal [OF p assms(1) m assms(2)] obtain w where
    col: "df_get df1 vn = Some (StrCol (astype_str cats codes))"
    and lev: "measureLevels info vn = Some ''nominal''"
    and vt: "varTypes info vn = Some w" and w: "max_str_len cats codes = Inr w"
    by (cases "varTypes info vn") auto
  from max_str_len_spec [OF w] f col lev vt show ?thesis by simp
qed

theorem nominal_width_witness:
  "\<exists>sv. snd (snd (df_to_sav ([(''colour'', CatCol False colour [0, 3, 0])] :: int dataframe) ''out.sav'' Map.empty))
            ''out.sav'' = Some (Sav sv)
     \<and> df_get (sav_data sv) ''colour'' = Some (StrCol [''red'', ''green'', ''red''])
     \<and> sav_varTypes sv ''colour'' = Some 5
     \<and> Max (length ` set colour) = 6"
proof -
  let ?d = "[(''colour'', CatCol False colour [0 :: int, 3, 0])] :: int dataframe"
  have str: "astype_str colour [0, 3, 0] = [''red'', ''green'', ''red'']"
    by (simp add: astype_str_def cat_values_def colour_def)
  obtain df1 fs1 where r: "df_to_sav ?d ''out.sav'' Map.empty = (Inr (), df1, fs1)"
    by (simp add: df_to_sav_def sav_variable_def df_get_def df_set_def no_info_def
                  max_str_len_def cat_values_def colour_def)
  have g: "df_get ?d ''colour'' = Some (CatCol False colour [0, 3, 0])" by (simp add: df_get_def)
  have d: "distinct (map fst ?d)" by simp
  have m: "Max (length ` set colour) = 6" by (simp add: colour_def)
  from nominal_width [OF d g r] r str m show ?thesis by auto
qed

text \<open>
  C6, as the claim states it, fails: a column over the categories low, mid, high whose only
  row holds mid is written with the value-label table \<open>{1: mid}\<close>, not the table of all
  three categories.
\<close>

lemma table_differs:
  "([1 \<mapsto> ''mid''] :: int \<rightharpoonup> string) \<noteq> [0 \<mapsto> ''low'', 1 \<mapsto> ''mid'', 2 \<mapsto> ''high'']"
proof
  assume "([1 \<mapsto> ''mid''] :: int \<rightharpoonup> string) = [0 \<mapsto> ''low'', 1 \<mapsto> ''mid'', 2 \<mapsto> ''high'']"
  then have "([1 \<mapsto> ''mid''] :: int \<rightharpoonup> string) 0
      = ([0 \<mapsto> ''low'', 1 \<mapsto> ''mid'', 2 \<mapsto> ''high''] :: int \<rightharpoonup> string) 0"
    by (rule fun_cong)
  then show False by simp
qed

theorem ordinal_value_labels_counterexample:
  "df_to_sav ([(''rating'', CatCol True [''low'', ''mid'', ''high'']
                   (map (cat_code [''low'', ''mid'', ''high'']) [St ''mid'']))] :: int dataframe)
      ''out.sav'' Map.empty
   = (Inr (), [(''rating'', IntCol [1])],
      [''out.sav'' \<mapsto> Sav \<lparr>sav_varNames = [''rating''], sav_varTypes = [''rating'' \<mapsto> 0],
         sav_valueLabels = [''rating'' \<mapsto> [1 \<mapsto> ''mid'']],
         sav_measureLevels = [''rating'' \<mapsto> ''ordinal''],
         sav_formats = [''rating'' \<mapsto> ''F1.0''], sav_data = [(''rating'', IntCol [1])]\<rparr>])
   \<and> ([1 \<mapsto> ''mid''] :: int \<rightharpoonup> string) \<noteq> [0 \<mapsto> ''low'', 1 \<mapsto> ''mid'', 2 \<mapsto> ''high'']"
  using table_differs
  by (simp add: df_to_sav_def sav_variable_def df_get_def df_set_def no_info_def
                py_index_def sav_format_2_10)

text \<open>
  C6, amended. For an ordered categorical column over low, mid, high, a row holding mid has
  the code 1; \<open>df_to_csv\<close> and \<open>df_to_xlsx\<close> write the column as these codes; \<open>df_to_sav\<close>,
  when it succeeds, writes the codes and a value-label table whose keys are exactly the
  codes that occur in the column, with 1 mapped to mid. The table is
  \<open>{0: low, 1: mid, 2: high}\<close> when the codes that occur are 0, 1 and 2.
\<close>

theorem ordinal_mid_code:
  assumes "distinct (map fst df)"
    and "df_get df vn = Some (CatCol True [''low'', ''mid'', ''high''] codes)"
    and "codes = map (cat_code [''low'', ''mid'', ''high'']) cells"
    and "i < length cells" and "cells ! i = St ''mid''"
  shows "codes ! i = 1
     \<and> snd (df_to_csv df pn fs) pn = Some (Csv (fst (df_to_csv df pn fs)))
     \<and> df_get (fst (df_to_csv df pn fs)) vn = Some (IntCol codes)
     \<and> snd (df_to_xlsx df pn fs) pn = Some (Xlsx (fst (df_to_xlsx df pn fs)))
     \<and> df_get (fst (df_to_xlsx df pn fs)) vn = Some (IntCol codes)
     \<and> (df_to_sav df pn fs = (Inr (), df1, fs1) \<longrightarrow>
          (\<exists>sv vl. fs1 pn = Some (Sav sv) \<and> df_get (sav_data sv) vn = Some (IntCol codes)
             \<and> sav_valueLabels sv vn = Some vl \<and> vl 1 = Some ''mid'' \<and> dom vl = set codes
             \<and> (set codes = {0, 1, 2} \<longrightarrow> vl = [0 \<mapsto> ''low'', 1 \<mapsto> ''mid'', 2 \<mapsto> ''high''])))"
proof -
  from assms(3-5) have ci: "codes ! i = 1" by simp
  from assms(3,4) ci have one: "1 \<in> set codes" by (metis length_map nth_mem)
  from assms(2) have m: "vn \<in> set (map fst df)" by (rule df_get_names)
  have csv: "df_get (ordinals_to_codes (map fst df) df) vn = Some (IntCol codes)"
    using m assms(2) by (rule ordinals_to_codes_ordered)
  have sav: "\<exists>sv vl. fs1 pn = Some (Sav sv) \<and> df_get (sav_data sv) vn = Some (IntCol codes)
             \<and> sav_valueLabels sv vn = Some vl \<and> vl 1 = Some ''mid'' \<and> dom vl = set codes
             \<and> (set codes = {0, 1, 2} \<longrightarrow> vl = [0 \<mapsto> ''low'', 1 \<mapsto> ''mid'', 2 \<mapsto> ''high''])"
    if r: "df_to_sav df pn fs = (Inr (), df1, fs1)"
  proof -
    from df_to_sav_written [OF r] obtain info where
      p: "sav_prepare (map fst df) df no_info = (Inr info, df1)"
      and f: "fs1 pn = Some (Sav \<lparr>sav_varNames = map fst df, sav_varTypes = varTypes info,
                             sav_valueLabels = valueLabels info,
                             sav_measureLevels = measureLevels info,
                             sav_formats = formats info, sav_data = df1\<rparr>)"
      by auto
    from sav_prepare_ordered [OF p assms(1) m assms(2)] obtain vl where
      col: "df_get df1 vn = Some (IntCol codes)"
      and vl: "valueLabels info vn = Some vl"
      and v: "value_labels [''low'', ''mid'', ''high''] codes Map.empty = Inr vl"
      by (cases "valueLabels info vn") auto
    from value_labels_spec [OF v, of 1] one have v1: "vl 1 = Some ''mid''"
      by (simp add: py_index_def)
    from value_labels_dom [OF v] have dm: "dom vl = set codes" by simp
    have full: "vl = [0 \<mapsto> ''low'', 1 \<mapsto> ''mid'', 2 \<mapsto> ''high'']" if "set codes = {0, 1, 2}"
    proof
      fix c
      show "vl c = [0 \<mapsto> ''low'', 1 \<mapsto> ''mid'', 2 \<mapsto> ''high''] c"
        using value_labels_spec [OF v, of c] that by (auto simp: py_index_def)
    qed
    from f col vl v1 dm full show ?thesis by simp
  qed
  from ci csv sav show ?thesis
    by (simp add: df_to_csv_def df_to_xlsx_def Let_def)
qed

theorem ordinal_mid_code_witness:
  "map (cat_code [''low'', ''mid'', ''high'']) [St ''high'', St ''mid'', St ''low''] ! 1 = 1
   \<and> df_get (fst (df_to_csv ([(''rating'', CatCol True [''low'', ''mid'', ''high''] [2, 1, 0])]
                                 :: int dataframe) ''out.csv'' Map.empty)) ''rating''
       = Some (IntCol [2, 1, 0])
   \<and> (\<exists>sv. snd (snd (df_to_sav ([(''rating'', CatCol True [''low'', ''mid'', ''high''] [2, 1, 0])]
                                    :: int dataframe) ''out.sav'' Map.empty)) ''out.sav''
              = Some (Sav sv)
          \<and> sav_valueLabels sv ''rating'' = Some [0 \<mapsto> ''low'', 1 \<mapsto> ''mid'', 2 \<mapsto> ''high''])"
proof -
  let ?cats = "[''low'', ''mid'', ''high'']"
  let ?cells = "[St ''high'', St ''mid'', St ''low''] :: int cell list"
  let ?d = "[(''rating'', CatCol True ?cats [2, 1, 0])] :: int dataframe"
  have c: "[2, 1, 0] = map (cat_code ?cats) ?cells" by simp
  have g: "df_get ?d ''rating'' = Some (CatCol True ?cats [2, 1, 0])" by (simp add: df_get_def)
  have d: "distinct (map fst ?d)" by simp
  have i: "1 < length ?cells" by simp
  have m: "?cells ! 1 = St ''mid''" by simp
  have s: "set [2, 1, 0 :: int] = {0, 1, 2}" by auto
  obtain df1 fs1 where r: "df_to_sav ?d ''out.sav'' Map.empty = (Inr (), df1, fs1)"
    by (simp add: df_to_sav_def sav_variable_def df_get_def df_set_def no_info_def
                  py_index_def sav_format_2_10)
  from ordinal_mid_code [OF d g c i m, where pn = "''out.csv''" and fs = Map.empty]
  have csv: "df_get (fst (df_to_csv ?d ''out.csv'' Map.empty)) ''rating'' = Some (IntCol [2, 1, 0])"
    by blast
  from ordinal_mid_code [OF d g c i m, where pn = "''out.sav''" and fs = Map.empty
      and ?df1.0 = df1 and ?fs1.0 = fs1] r s
  have sav: "\<exists>sv. fs1 ''out.sav'' = Some (Sav sv)
      \<and> sav_valueLabels sv ''rating'' = Some [0 \<mapsto> ''low'', 1 \<mapsto> ''mid'', 2 \<mapsto> ''high'']"
    by blast
  from csv sav r show ?thesis by simp
qed

section \<open>Properties of the file cache\<close>

subsection \<open>Path names\<close>

lemma path_join_eq [simp]: "path_join dir a = path_join dir b \<longleftrightarrow> a = b"
  by (simp add: path_join_def)

lemma signal_name_eq [simp]: "signal_name a = signal_name b \<longleftrightarrow> a = b"
  by (simp add: signal_name_def)

lemma signal_name_ne_filename [simp]:
  "signal_name a \<noteq> filename r" "filename r \<noteq> signal_name a"
  by (simp_all add: signal_name_def filename_def)

subsection \<open>What the writers do to the cache directory\<close>

lemma write_file_other:
  "write_file fmt df pn fs = (res, df1, fs1) \<Longrightarrow> p \<noteq> pn \<Longrightarrow> fs1 p = fs p"
  by (auto simp: write_file_def df_to_csv_def df_to_xlsx_def df_to_sav_def Let_def
           split: if_splits prod.splits sum.splits)

lemma write_file_keeps:
  "write_file fmt df pn fs = (res, df1, fs1) \<Longrightarrow> fs p \<noteq> None \<Longrightarrow> fs1 p \<noteq> None"
  by (auto simp: write_file_def df_to_csv_def df_to_xlsx_def df_to_sav_def Let_def
           split: if_splits prod.splits sum.splits)

lemma write_file_written:
  "write_file fmt df pn fs = (Inr u, df1, fs1) \<Longrightarrow> writes_file fmt \<Longrightarrow> fs1 pn \<noteq> None"
  by (auto simp: write_file_def df_to_csv_def df_to_xlsx_def df_to_sav_def Let_def writes_file_def
           split: if_splits prod.splits sum.splits)

lemma write_file_files_other [simp]:
  "p \<noteq> pn \<Longrightarrow> snd (snd (write_file fmt df pn fs)) p = fs p"
  using write_file_other [of fmt df pn fs] by (cases "write_file fmt df pn fs") auto

lemma write_file_files_keeps:
  "fs p \<noteq> None \<Longrightarrow> snd (snd (write_file fmt df pn fs)) p \<noteq> None"
  using write_file_keeps [of fmt df pn fs] by (cases "write_file fmt df pn fs") auto

lemma write_file_files_written:
  "fst (write_file fmt df pn fs) = Inr u \<Longrightarrow> writes_file fmt \<Longrightarrow>
   snd (snd (write_file fmt df pn fs)) pn \<noteq> None"
  using write_file_written [of fmt df pn fs] by (cases "write_file fmt df pn fs") auto

lemma write_file_files_Some:
  "fs p = Some y \<Longrightarrow> \<exists>z. snd (snd (write_file fmt df pn fs)) p = Some z"
  using write_file_files_keeps [of fs p fmt df pn] by auto

lemma write_file_files_changed:
  "snd (snd (write_file fmt df pn fs)) p \<noteq> fs p \<Longrightarrow> p = pn"
  by (rule ccontr) simp

lemma write_file_files_written_Some:
  "fst (write_file fmt df pn fs) = Inr u \<Longrightarrow> writes_file fmt \<Longrightarrow>
   \<exists>z. snd (snd (write_file fmt df pn fs)) pn = Some z"
  using write_file_files_written [of fmt df pn fs u] by auto

subsection \<open>The steps of a call\<close>

lemmas step_simps = step_caller_def step_worker_def Let_def owns_signal_def signalpath_def
  pathname_def split_def

lemma ended_cases: "ended w \<Longrightarrow> w = Done \<or> failed w"
  by (cases w) auto

lemma worker_cases: "w = Idle \<or> w = Done \<or> thread_owns w"
  by (cases w) auto

lemma printed_not_idle: "printed w \<Longrightarrow> w \<noteq> Idle"
  by (cases w) auto

lemma step_caller_request [simp]:
  "request (threads (step_caller e cache k s) i) = request (threads s i)"
  by (cases "caller (threads s k)") (auto simp: step_caller_def Let_def split: option.splits)

lemma step_caller_created [simp]: "created (step_caller e cache k s) = created s"
  by (cases "caller (threads s k)") (auto simp: step_caller_def Let_def split: option.splits)

lemma step_caller_datafile [simp]:
  "files (step_caller e cache k s) (path_join cache (filename r)) = files s (path_join cache (filename r))"
  by (cases "caller (threads s k)")
     (auto simp: step_caller_def Let_def signalpath_def split: option.splits)

lemma step_caller_worker:
  "worker (threads (step_caller e cache k s) j) = worker (threads s j)
   \<or> (j = k \<and> caller (threads s k) = Spawn \<and> worker (threads (step_caller e cache k s) j) \<noteq> Idle)"
  by (cases "caller (threads s k)") (auto simp: step_caller_def Let_def split: option.splits)

lemma one_owner_caller:
  assumes "one_owner f s" "owner_has_signal cache f s"
  shows "one_owner f (step_caller e cache k s)"
  using assms unfolding one_owner_def owner_has_signal_def
  by (cases "caller (threads s k)") (auto simp: step_simps split: option.splits)

lemma owner_has_signal_caller:
  assumes "one_owner f s" "owner_has_signal cache f s" "thread_after_call f s"
  shows "owner_has_signal cache f (step_caller e cache k s)"
  using assms unfolding one_owner_def owner_has_signal_def thread_after_call_def
  by (cases "caller (threads s k)") (auto simp: step_simps split: option.splits)

lemma starter_sees_no_file_caller:
  assumes "starter_sees_no_file cache f s"
  shows "starter_sees_no_file cache f (step_caller e cache k s)"
  using assms unfolding starter_sees_no_file_def
  by (cases "caller (threads s k)") (auto simp: step_simps split: option.splits)

lemma written_file_stays_caller:
  assumes "written_file_stays cache f s"
  shows "written_file_stays cache f (step_caller e cache k s)"
  using assms unfolding written_file_stays_def
  by (cases "caller (threads s k)") (auto simp: step_simps split: option.splits)

lemma thread_after_call_caller:
  assumes "thread_after_call f s"
  shows "thread_after_call f (step_caller e cache k s)"
  using assms unfolding thread_after_call_def
  by (cases "caller (threads s k)") (auto simp: step_simps split: option.splits)

lemma one_thread_caller:
  assumes "one_thread f s" "one_owner f s" "starter_sees_no_file cache f s"
    "written_file_stays cache f s"
  shows "one_thread f (step_caller e cache k s)"
proof (cases "caller (threads s k) = Spawn \<and> filename (request (threads s k)) = f")
  case False
  have same: "worker (threads (step_caller e cache k s) j) = worker (threads s j)"
    if "filename (request (threads s j)) = f" for j
    using step_caller_worker [of e cache k s j] False that by auto
  show ?thesis
    unfolding one_thread_def
  proof (intro allI impI)
    fix i j
    assume "filename (request (threads (step_caller e cache k s) i)) = f \<and>
       filename (request (threads (step_caller e cache k s) j)) = f \<and>
       worker (threads (step_caller e cache k s) i) \<noteq> Idle \<and>
       worker (threads (step_caller e cache k s) j) \<noteq> Idle"
    then have "filename (request (threads s i)) = f" "filename (request (threads s j)) = f"
      "worker (threads s i) \<noteq> Idle" "worker (threads s j) \<noteq> Idle"
      using same by auto
    with assms(1) show "i = j" unfolding one_thread_def by blast
  qed
next
  case True
  then have own: "owns_signal (threads s k)" by (simp add: owns_signal_def)
  from True assms(3) have nofile: "files s (path_join cache f) = None"
    unfolding starter_sees_no_file_def by auto
  have idle: "worker (threads s m) = Idle" if "filename (request (threads s m)) = f" "m \<noteq> k" for m
  proof -
    from worker_cases [of "worker (threads s m)"] show ?thesis
    proof (elim disjE)
      assume "worker (threads s m) = Done"
      with that(1) assms(4) nofile show ?thesis unfolding written_file_stays_def by blast
    next
      assume "thread_owns (worker (threads s m))"
      then have "owns_signal (threads s m)" by (simp add: owns_signal_def)
      with own True that assms(2) show ?thesis unfolding one_owner_def by blast
    qed
  qed
  have is_k: "m = k" if "filename (request (threads s m)) = f"
    "worker (threads (step_caller e cache k s) m) \<noteq> Idle" for m
    using step_caller_worker [of e cache k s m] idle [of m] that by (cases "m = k") auto
  show ?thesis
    unfolding one_thread_def
  proof (intro allI impI)
    fix i j
    assume "filename (request (threads (step_caller e cache k s) i)) = f \<and>
       filename (request (threads (step_caller e cache k s) j)) = f \<and>
       worker (threads (step_caller e cache k s) i) \<noteq> Idle \<and>
       worker (threads (step_caller e cache k s) j) \<noteq> Idle"
    then have "i = k" "j = k" using is_k by auto
    then show "i = j" by simp
  qed
qed

lemma printed_by_thread_caller:
  assumes "printed_by_thread cache f s" "thread_after_call f s"
  shows "printed_by_thread cache f (step_caller e cache k s)"
  unfolding printed_by_thread_def
proof
  assume "path_join cache f \<in> set (created (step_caller e cache k s))"
  with assms(1) obtain j where j: "filename (request (threads s j)) = f"
    "printed (worker (threads s j))"
    unfolding printed_by_thread_def by auto
  then have "worker (threads s j) \<noteq> Idle" by (auto dest: printed_not_idle)
  with j assms(2) have "caller (threads s j) \<noteq> Spawn"
    unfolding thread_after_call_def by fastforce
  with step_caller_worker [of e cache k s j]
  have "worker (threads (step_caller e cache k s) j) = worker (threads s j)" by auto
  with j show "\<exists>j. filename (request (threads (step_caller e cache k s) j)) = f
      \<and> printed (worker (threads (step_caller e cache k s) j))"
    by auto
qed

lemma printed_once_caller:
  assumes "printed_once cache f s"
  shows "printed_once cache f (step_caller e cache k s)"
  using assms unfolding printed_once_def
  by (cases "caller (threads s k)") (auto simp: step_simps split: option.splits)

lemma remover_saw_file_caller:
  assumes "remover_saw_file cache f s"
  shows "remover_saw_file cache f (step_caller e cache k s)"
  using assms unfolding remover_saw_file_def
  by (cases "caller (threads s k)") (auto simp: step_simps split: option.splits)

lemma poller_has_file_caller:
  assumes "poller_has_file cache f s" "remover_saw_file cache f s"
  shows "poller_has_file cache f (step_caller e cache k s)"
  using assms unfolding poller_has_file_def remover_saw_file_def
  by (cases "caller (threads s k)") (auto simp: step_simps split: option.splits)

lemma step_caller_returned:
  "returned (caller (threads (step_caller e cache k s) i)) \<Longrightarrow>
   (returned (caller (threads s i)) \<and> worker (threads (step_caller e cache k s) i) = worker (threads s i))
   \<or> (i = k \<and> \<not> req_wait (request (threads s k)))
   \<or> (i = k \<and> caller (threads s k) = Remove_Signal)
   \<or> (i = k \<and> caller (threads s k) = Join \<and> ended (worker (threads s k))
        \<and> worker (threads (step_caller e cache k s) i) = worker (threads s i))
   \<or> (i = k \<and> caller (threads s k) = Poll
        \<and> files s (path_join cache (signal_name (filename (request (threads s k))))) = None)"
  by (cases "caller (threads s k)")
     (auto simp: step_caller_def Let_def signalpath_def split: option.splits if_splits)

lemma waiter_has_file_caller:
  assumes "waiter_has_file cache f s" "remover_saw_file cache f s" "poller_has_file cache f s"
    "written_file_stays cache f s"
  shows "waiter_has_file cache f (step_caller e cache k s)"
  unfolding waiter_has_file_def
proof (intro allI impI)
  fix i
  let ?s' = "step_caller e cache k s"
  assume a: "filename (request (threads ?s' i)) = f \<and> returned (caller (threads ?s' i))
     \<and> req_wait (request (threads ?s' i))"
  then have f: "filename (request (threads s i)) = f" and w: "req_wait (request (threads s i))"
    and r: "returned (caller (threads ?s' i))" by auto
  have datafile: "files ?s' (path_join cache f) = files s (path_join cache f)"
    using f step_caller_datafile [of e cache k s "request (threads s i)"] by simp
  from step_caller_returned [OF r] w
  consider
    (old) "returned (caller (threads s i))" "worker (threads ?s' i) = worker (threads s i)"
  | (removed) "i = k" "caller (threads s k) = Remove_Signal"
  | (joined) "i = k" "caller (threads s k) = Join" "ended (worker (threads s k))"
      "worker (threads ?s' i) = worker (threads s i)"
  | (polled) "i = k" "caller (threads s k) = Poll"
      "files s (path_join cache (signal_name (filename (request (threads s k))))) = None"
    by (elim disjE conjE) auto
  then show "files ?s' (path_join cache f) \<noteq> None \<or> failed (worker (threads ?s' i))"
  proof cases
    case old
    with assms(1) f w datafile show ?thesis unfolding waiter_has_file_def by auto
  next
    case removed
    with assms(2) f datafile show ?thesis unfolding remover_saw_file_def by auto
  next
    case joined
    from ended_cases [OF joined(3)] joined f datafile assms(4) show ?thesis
      unfolding written_file_stays_def by auto
  next
    case polled
    with assms(3) f datafile show ?thesis unfolding poller_has_file_def by auto
  qed
qed

subsection \<open>The steps of a creation thread\<close>

lemmas worker_simps = step_worker_def Let_def signalpath_def pathname_def split_def

lemma step_worker_request [simp]:
  "request (threads (step_worker e cache k s) i) = request (threads s i)"
  by (cases "worker (threads s k)") (auto simp: worker_simps split: sum.splits)

lemma step_worker_caller [simp]:
  "caller (threads (step_worker e cache k s) i) = caller (threads s i)"
  by (cases "worker (threads s k)") (auto simp: worker_simps split: sum.splits)

lemma step_worker_other:
  "i \<noteq> k \<Longrightarrow> worker (threads (step_worker e cache k s) i) = worker (threads s i)"
  by (cases "worker (threads s k)") (auto simp: worker_simps split: sum.splits)

lemma step_worker_moves:
  "worker (threads (step_worker e cache k s) k) = worker (threads s k)
   \<or> (sampling (worker (threads s k))
        \<and> ((\<exists>a. worker (threads (step_worker e cache k s) k) = Writing a)
            \<or> failed (worker (threads (step_worker e cache k s) k))))
   \<or> ((\<exists>a. worker (threads s k) = Writing a)
        \<and> (worker (threads (step_worker e cache k s) k) = Signal
            \<or> failed (worker (threads (step_worker e cache k s) k))))
   \<or> (worker (threads s k) = Signal
        \<and> (worker (threads (step_worker e cache k s) k) = Done
            \<or> failed (worker (threads (step_worker e cache k s) k))))"
  by (cases "worker (threads s k)") (auto simp: worker_simps split: sum.splits)

lemma step_worker_idle:
  "worker (threads (step_worker e cache k s) i) = Idle \<longleftrightarrow> worker (threads s i) = Idle"
  by (cases "worker (threads s k)") (auto simp: worker_simps split: sum.splits)

lemma step_worker_owns:
  "owns_signal (threads (step_worker e cache k s) i) \<Longrightarrow> owns_signal (threads s i)"
  by (cases "worker (threads s k)") (auto simp: worker_simps owns_signal_def split: sum.splits if_splits)

lemma step_worker_datafile_keeps:
  "files s (path_join cache (filename r)) \<noteq> None \<Longrightarrow>
   files (step_worker e cache k s) (path_join cache (filename r)) \<noteq> None"
  by (cases "worker (threads s k)")
     (auto simp: worker_simps intro: write_file_files_Some split: sum.splits)

lemma step_worker_datafile_changes:
  "files (step_worker e cache k s) (path_join cache (filename r)) \<noteq> files s (path_join cache (filename r))
   \<Longrightarrow> filename (request (threads s k)) = filename r \<and> (\<exists>a. worker (threads s k) = Writing a)"
  by (cases "worker (threads s k)")
     (auto simp: worker_simps dest: write_file_files_changed split: sum.splits if_splits)

lemma step_worker_signal_file:
  "files (step_worker e cache k s) (path_join cache (signal_name g)) = files s (path_join cache (signal_name g))
   \<or> (filename (request (threads s k)) = g \<and> worker (threads s k) = Signal)"
  by (cases "worker (threads s k)")
     (auto simp: worker_simps split: sum.splits if_splits)

lemma step_worker_created:
  "created (step_worker e cache k s) = created s
   \<or> (sampling (worker (threads s k))
       \<and> created (step_worker e cache k s) = created s @ [path_join cache (filename (request (threads s k)))])"
  by (cases "worker (threads s k)")
     (auto simp: worker_simps split: sum.splits if_splits)

lemma step_worker_written:
  "worker (threads s k) = Writing a \<Longrightarrow> worker (threads (step_worker e cache k s) k) = Signal \<Longrightarrow>
   writes_file (req_format (request (threads s k))) \<Longrightarrow>
   files (step_worker e cache k s) (path_join cache (filename (request (threads s k)))) \<noteq> None"
  by (auto simp: worker_simps intro: write_file_files_written_Some split: sum.splits)

lemma step_worker_failed:
  "failed (worker (threads s i)) \<Longrightarrow> failed (worker (threads (step_worker e cache k s) i))"
  by (cases "worker (threads s k)") (auto simp: worker_simps split: sum.splits)

lemma step_worker_printed:
  "printed (worker (threads s i)) \<Longrightarrow> printed (worker (threads (step_worker e cache k s) i))"
  by (cases "worker (threads s k)") (auto simp: worker_simps split: sum.splits if_splits)

lemma step_worker_sampling:
  "sampling (worker (threads (step_worker e cache k s) i)) \<Longrightarrow> sampling (worker (threads s i))"
  by (cases "worker (threads s k)") (auto simp: worker_simps split: sum.splits if_splits)

lemma one_owner_worker:
  assumes "one_owner f s"
  shows "one_owner f (step_worker e cache k s)"
  using assms unfolding one_owner_def
  by (auto dest!: step_worker_owns)

lemma thread_after_call_worker:
  assumes "thread_after_call f s"
  shows "thread_after_call f (step_worker e cache k s)"
  using assms unfolding thread_after_call_def
  by (simp add: step_worker_idle)

lemma one_thread_worker:
  assumes "one_thread f s"
  shows "one_thread f (step_worker e cache k s)"
  using assms unfolding one_thread_def
  by (simp add: step_worker_idle)

lemma remover_saw_file_worker:
  assumes "remover_saw_file cache f s"
  shows "remover_saw_file cache f (step_worker e cache k s)"
  unfolding remover_saw_file_def
proof (intro allI impI)
  fix i
  let ?s' = "step_worker e cache k s"
  assume a: "filename (request (threads ?s' i)) = f \<and> caller (threads ?s' i) = Remove_Signal"
  with assms have "files s (path_join cache (filename (request (threads s i)))) \<noteq> None"
    unfolding remover_saw_file_def by auto
  from step_worker_datafile_keeps [OF this] a
  show "files ?s' (path_join cache f) \<noteq> None" by simp
qed

lemma owner_has_signal_worker:
  assumes "one_owner f s" "owner_has_signal cache f s" "thread_after_call f s"
  shows "owner_has_signal cache f (step_worker e cache k s)"
  unfolding owner_has_signal_def
proof (intro allI impI)
  fix i
  let ?s' = "step_worker e cache k s"
  assume a: "filename (request (threads ?s' i)) = f \<and> owns_signal (threads ?s' i)"
  then have fi: "filename (request (threads s i)) = f" and o': "owns_signal (threads ?s' i)"
    by auto
  from o' have oi: "owns_signal (threads s i)" by (rule step_worker_owns)
  with fi assms(2) have present: "files s (path_join cache (signal_name f)) \<noteq> None"
    unfolding owner_has_signal_def by blast
  from step_worker_signal_file [of e cache k s f]
  show "files ?s' (path_join cache (signal_name f)) \<noteq> None"
  proof
    assume "files ?s' (path_join cache (signal_name f)) = files s (path_join cache (signal_name f))"
    with present show ?thesis by simp
  next
    assume k: "filename (request (threads s k)) = f \<and> worker (threads s k) = Signal"
    then have "owns_signal (threads s k)" by (simp add: owns_signal_def)
    with oi fi k assms(1) have ik: "i = k" unfolding one_owner_def by blast
    from k assms(3) have c: "caller (threads s k) = Join \<or> returned (caller (threads s k))"
      unfolding thread_after_call_def by auto
    then have nc: "\<not> call_owns (caller (threads ?s' k))"
      by (cases "caller (threads s k)") auto
    from step_worker_moves [of e cache k s] k
    have "worker (threads ?s' k) = Signal \<or> worker (threads ?s' k) = Done
        \<or> failed (worker (threads ?s' k))"
      by auto
    then show ?thesis
    proof (elim disjE)
      assume "worker (threads ?s' k) = Signal"
      with k present show ?thesis
        by (auto simp: worker_simps)
    next
      assume "worker (threads ?s' k) = Done"
      with o' ik nc show ?thesis by (simp add: owns_signal_def)
    next
      assume "failed (worker (threads ?s' k))"
      with k present show ?thesis
        by (auto simp: worker_simps split: if_splits)
    qed
  qed
qed

lemma starter_sees_no_file_worker:
  assumes "starter_sees_no_file cache f s" "one_owner f s" "thread_after_call f s"
  shows "starter_sees_no_file cache f (step_worker e cache k s)"
  unfolding starter_sees_no_file_def
proof (intro allI impI)
  fix i
  let ?s' = "step_worker e cache k s"
  assume a: "filename (request (threads ?s' i)) = f
     \<and> (caller (threads ?s' i) = Spawn \<or> sampling (worker (threads ?s' i)))"
  then have fi: "filename (request (threads s i)) = f"
    and st: "caller (threads s i) = Spawn \<or> sampling (worker (threads s i))"
    by (auto dest: step_worker_sampling)
  from st have oi: "owns_signal (threads s i)"
    by (cases "worker (threads s i)") (auto simp: owns_signal_def)
  from fi st assms(1) have absent: "files s (path_join cache f) = None"
    unfolding starter_sees_no_file_def by auto
  show "files ?s' (path_join cache f) = None"
  proof (rule ccontr)
    assume "files ?s' (path_join cache f) \<noteq> None"
    with absent fi have
      "files ?s' (path_join cache (filename (request (threads s i))))
         \<noteq> files s (path_join cache (filename (request (threads s i))))"
      by simp
    from step_worker_datafile_changes [OF this] fi obtain b where
      k: "filename (request (threads s k)) = f" "worker (threads s k) = Writing b" by auto
    then have "owns_signal (threads s k)" by (simp add: owns_signal_def)
    with oi fi k assms(2) have ik: "i = k" unfolding one_owner_def by blast
    from k assms(3) have "caller (threads s k) = Join \<or> returned (caller (threads s k))"
      unfolding thread_after_call_def by auto
    with st ik k show False by auto
  qed
qed

lemma written_file_stays_worker:
  assumes "written_file_stays cache f s" "all_written f s"
  shows "written_file_stays cache f (step_worker e cache k s)"
  unfolding written_file_stays_def
proof (intro allI impI)
  fix i
  let ?s' = "step_worker e cache k s"
  assume a: "filename (request (threads ?s' i)) = f
     \<and> (worker (threads ?s' i) = Signal \<or> worker (threads ?s' i) = Done)"
  then have fi: "filename (request (threads s i)) = f"
    and w': "worker (threads ?s' i) = Signal \<or> worker (threads ?s' i) = Done" by auto
  show "files ?s' (path_join cache f) \<noteq> None"
  proof (cases "worker (threads s i) = Signal \<or> worker (threads s i) = Done")
    case True
    with fi assms(1) have "files s (path_join cache (filename (request (threads s i)))) \<noteq> None"
      unfolding written_file_stays_def by auto
    from step_worker_datafile_keeps [OF this] fi show ?thesis by simp
  next
    case False
    with w' step_worker_other [of i k e cache s] have ik: "i = k" by (cases "i = k") auto
    from step_worker_moves [of e cache k s] False w' ik
    obtain b where b: "worker (threads s k) = Writing b" "worker (threads ?s' k) = Signal"
      by auto
    from fi ik assms(2) have "writes_file (req_format (request (threads s k)))"
      unfolding all_written_def by auto
    from step_worker_written [OF b this] fi ik show ?thesis by simp
  qed
qed

lemma printed_by_thread_worker:
  assumes "printed_by_thread cache f s"
  shows "printed_by_thread cache f (step_worker e cache k s)"
  unfolding printed_by_thread_def
proof
  let ?s' = "step_worker e cache k s"
  assume m: "path_join cache f \<in> set (created ?s')"
  show "\<exists>j. filename (request (threads ?s' j)) = f \<and> printed (worker (threads ?s' j))"
  proof (cases "path_join cache f \<in> set (created s)")
    case True
    with assms obtain j where "filename (request (threads s j)) = f"
      "printed (worker (threads s j))"
      unfolding printed_by_thread_def by auto
    then show ?thesis by (auto dest: step_worker_printed)
  next
    case False
    with m step_worker_created [of e cache k s]
    have k: "sampling (worker (threads s k))" "filename (request (threads s k)) = f"
      by auto
    with step_worker_moves [of e cache k s] have "printed (worker (threads ?s' k))"
      by (cases "worker (threads s k)") (auto simp: worker_simps split: sum.splits)
    with k show ?thesis by auto
  qed
qed

lemma printed_once_worker:
  assumes "printed_once cache f s" "printed_by_thread cache f s" "one_thread f s"
  shows "printed_once cache f (step_worker e cache k s)"
proof -
  let ?s' = "step_worker e cache k s"
  from step_worker_created [of e cache k s] show ?thesis
  proof
    assume "created ?s' = created s"
    with assms(1) show ?thesis by (simp add: printed_once_def)
  next
    assume a: "sampling (worker (threads s k))
       \<and> created ?s' = created s @ [path_join cache (filename (request (threads s k)))]"
    show ?thesis
    proof (cases "filename (request (threads s k)) = f")
      case False
      with a assms(1) show ?thesis by (simp add: printed_once_def)
    next
      case True
      have "path_join cache f \<notin> set (created s)"
      proof
        assume "path_join cache f \<in> set (created s)"
        with assms(2) obtain j where j: "filename (request (threads s j)) = f"
          "printed (worker (threads s j))"
          unfolding printed_by_thread_def by auto
        from a have kn: "worker (threads s k) \<noteq> Idle" by auto
        from j have "worker (threads s j) \<noteq> Idle" by (auto dest: printed_not_idle)
        with kn j True assms(3) have "j = k" unfolding one_thread_def by blast
        with j a show False by (cases "worker (threads s k)") auto
      qed
      then have "count_list (created s) (path_join cache f) = 0" by simp
      with a True show ?thesis by (simp add: printed_once_def)
    qed
  qed
qed

lemma poller_has_file_worker:
  assumes "poller_has_file cache f s" "written_file_stays cache f s"
  shows "poller_has_file cache f (step_worker e cache k s)"
  unfolding poller_has_file_def
proof (intro allI impI)
  fix i
  let ?s' = "step_worker e cache k s"
  assume a: "filename (request (threads ?s' i)) = f \<and> caller (threads ?s' i) = Poll"
  then have fi: "filename (request (threads s i)) = f" and "caller (threads s i) = Poll" by auto
  with assms(1) have old: "files s (path_join cache (signal_name f)) \<noteq> None
      \<or> files s (path_join cache f) \<noteq> None"
    unfolding poller_has_file_def by blast
  have keep: "files s (path_join cache f) \<noteq> None \<Longrightarrow> files ?s' (path_join cache f) \<noteq> None"
    using step_worker_datafile_keeps [of s cache "request (threads s i)" e k] fi by simp
  from step_worker_signal_file [of e cache k s f]
  show "files ?s' (path_join cache (signal_name f)) \<noteq> None \<or> files ?s' (path_join cache f) \<noteq> None"
  proof
    assume "files ?s' (path_join cache (signal_name f)) = files s (path_join cache (signal_name f))"
    with old keep show ?thesis by auto
  next
    assume "filename (request (threads s k)) = f \<and> worker (threads s k) = Signal"
    with assms(2) have "files s (path_join cache f) \<noteq> None"
      unfolding written_file_stays_def by blast
    with keep show ?thesis by simp
  qed
qed

lemma waiter_has_file_worker:
  assumes "waiter_has_file cache f s"
  shows "waiter_has_file cache f (step_worker e cache k s)"
  unfolding waiter_has_file_def
proof (intro allI impI)
  fix i
  let ?s' = "step_worker e cache k s"
  assume a: "filename (request (threads ?s' i)) = f \<and> returned (caller (threads ?s' i))
     \<and> req_wait (request (threads ?s' i))"
  then have fi: "filename (request (threads s i)) = f" by simp
  from a assms have "files s (path_join cache f) \<noteq> None \<or> failed (worker (threads s i))"
    unfolding waiter_has_file_def by auto
  then show "files ?s' (path_join cache f) \<noteq> None \<or> failed (worker (threads ?s' i))"
  proof
    assume "files s (path_join cache f) \<noteq> None"
    with step_worker_datafile_keeps [of s cache "request (threads s i)" e k] fi
    show ?thesis by simp
  next
    assume "failed (worker (threads s i))"
    then show ?thesis by (auto dest: step_worker_failed)
  qed
qed

subsection \<open>Every schedule keeps the invariant\<close>

lemma cache_inv_step:
  assumes "cache_inv cache f s" "all_written f s"
  shows "cache_inv cache f (step e cache a s)"
proof (cases a)
  case (Caller k)
  from assms(1) have
    "one_owner f (step_caller e cache k s)"
    "owner_has_signal cache f (step_caller e cache k s)"
    "starter_sees_no_file cache f (step_caller e cache k s)"
    "written_file_stays cache f (step_caller e cache k s)"
    "thread_after_call f (step_caller e cache k s)"
    "one_thread f (step_caller e cache k s)"
    "printed_by_thread cache f (step_caller e cache k s)"
    "printed_once cache f (step_caller e cache k s)"
    "remover_saw_file cache f (step_caller e cache k s)"
    "poller_has_file cache f (step_caller e cache k s)"
    "waiter_has_file cache f (step_caller e cache k s)"
    unfolding cache_inv_def
    by (blast intro: one_owner_caller owner_has_signal_caller starter_sees_no_file_caller
          written_file_stays_caller thread_after_call_caller one_thread_caller
          printed_by_thread_caller printed_once_caller remover_saw_file_caller
          poller_has_file_caller waiter_has_file_caller)+
  with Caller show ?thesis by (simp add: cache_inv_def)
next
  case (Worker k)
  from assms have
    "one_owner f (step_worker e cache k s)"
    "owner_has_signal cache f (step_worker e cache k s)"
    "starter_sees_no_file cache f (step_worker e cache k s)"
    "written_file_stays cache f (step_worker e cache k s)"
    "thread_after_call f (step_worker e cache k s)"
    "one_thread f (step_worker e cache k s)"
    "printed_by_thread cache f (step_worker e cache k s)"
    "printed_once cache f (step_worker e cache k s)"
    "remover_saw_file cache f (step_worker e cache k s)"
    "poller_has_file cache f (step_worker e cache k s)"
    "waiter_has_file cache f (step_worker e cache k s)"
    unfolding cache_inv_def
    by (blast intro: one_owner_worker owner_has_signal_worker starter_sees_no_file_worker
          written_file_stays_worker thread_after_call_worker one_thread_worker
          printed_by_thread_worker printed_once_worker remover_saw_file_worker
          poller_has_file_worker waiter_has_file_worker)+
  with Worker show ?thesis by (simp add: cache_inv_def)
qed

lemma step_request [simp]: "request (threads (step e cache a s) i) = request (threads s i)"
  by (cases a) simp_all

lemma all_written_step: "all_written f s \<Longrightarrow> all_written f (step e cache a s)"
  by (simp add: all_written_def)

lemma cache_inv_init: "cache_inv cache f (init reqs)"
  by (simp add: cache_inv_def init_def one_owner_def owner_has_signal_def
        starter_sees_no_file_def written_file_stays_def thread_after_call_def one_thread_def
        printed_by_thread_def printed_once_def remover_saw_file_def poller_has_file_def
        waiter_has_file_def owns_signal_def)

lemma cache_inv_run:
  "cache_inv cache f s \<Longrightarrow> all_written f s \<Longrightarrow> cache_inv cache f (run e cache sched s)"
proof (induction sched arbitrary: s)
  case Nil
  then show ?case by (simp add: run_def)
next
  case (Cons a sched)
  from Cons.prems have "cache_inv cache f (step e cache a s)" "all_written f (step e cache a s)"
    by (auto intro: cache_inv_step all_written_step)
  from Cons.IH [OF this] show ?case by (simp add: run_def)
qed

lemma run_request [simp]: "request (threads (run e cache sched s) i) = request (threads s i)"
  by (induction sched arbitrary: s) (simp_all add: run_def)

text \<open>A call returns the file name of its request and nothing else.\<close>

lemma step_caller_returns_filename:
  assumes "\<forall>i name. caller (threads s i) = Returned name \<longrightarrow> name = filename (request (threads s i))"
  shows "caller (threads (step_caller e cache k s) i) = Returned name \<Longrightarrow>
         name = filename (request (threads s i))"
  using assms
  by (cases "caller (threads s k)")
     (auto simp: step_caller_def Let_def split: option.splits if_splits)

lemma run_returns_filename:
  assumes "\<forall>i name. caller (threads s i) = Returned name \<longrightarrow> name = filename (request (threads s i))"
  shows "caller (threads (run e cache sched s) i) = Returned name \<Longrightarrow>
         name = filename (request (threads s i))"
  using assms
proof (induction sched arbitrary: s i name)
  case Nil
  then show ?case by (simp add: run_def)
next
  case (Cons a sched)
  have "\<forall>i name. caller (threads (step e cache a s) i) = Returned name
      \<longrightarrow> name = filename (request (threads (step e cache a s) i))"
  proof (cases a)
    case (Caller k)
    with Cons.prems(2) show ?thesis
      by (auto dest: step_caller_returns_filename [rotated])
  next
    case (Worker k)
    with Cons.prems(2) show ?thesis by simp
  qed
  from Cons.IH [OF _ this, of i name] Cons.prems(1) show ?case by (simp add: run_def)
qed

subsection \<open>The owner of the signal file, and the entry at rest\<close>

lemma owner_inv_step:
  assumes "one_owner f s \<and> owner_has_signal cache f s \<and> thread_after_call f s"
  shows "one_owner f (step e cache a s) \<and> owner_has_signal cache f (step e cache a s)
     \<and> thread_after_call f (step e cache a s)"
proof (cases a)
  case (Caller k)
  with assms show ?thesis
    by (simp add: one_owner_caller owner_has_signal_caller thread_after_call_caller)
next
  case (Worker k)
  with assms show ?thesis
    by (simp add: one_owner_worker owner_has_signal_worker thread_after_call_worker)
qed

lemma owner_inv_run:
  "one_owner f s \<and> owner_has_signal cache f s \<and> thread_after_call f s \<Longrightarrow>
   one_owner f (run e cache sched s) \<and> owner_has_signal cache f (run e cache sched s)
     \<and> thread_after_call f (run e cache sched s)"
proof (induction sched arbitrary: s)
  case Nil
  then show ?case by (simp add: run_def)
next
  case (Cons a sched)
  from Cons.IH [OF owner_inv_step [OF Cons.prems]] show ?case by (simp add: run_def)
qed

lemma owner_inv_init:
  "one_owner f (init reqs) \<and> owner_has_signal cache f (init reqs) \<and> thread_after_call f (init reqs)"
  by (simp add: init_def one_owner_def owner_has_signal_def thread_after_call_def owns_signal_def)

lemma step_caller_other:
  "i \<noteq> k \<Longrightarrow> threads (step_caller e cache k s) i = threads s i"
  by (cases "caller (threads s k)")
     (auto simp: step_caller_def Let_def split: option.splits)

lemma no_signal_present:
  assumes "owner_has_signal cache f s"
    and "files s (path_join cache f) \<noteq> None"
    and "files s (path_join cache (signal_name f)) = None"
  shows "present cache f s"
  unfolding present_def
proof (intro conjI allI impI)
  show "files s (path_join cache f) \<noteq> None" by (rule assms(2))
next
  fix i
  assume fi: "filename (request (threads s i)) = f"
  with assms(1,3) have no: "\<not> owns_signal (threads s i)"
    unfolding owner_has_signal_def by auto
  then show "caller (threads s i) \<noteq> Spawn" by (auto simp: owns_signal_def)
  from no show "\<not> raised (caller (threads s i))"
    by (cases "caller (threads s i)") (auto simp: owns_signal_def)
  from no worker_cases [of "worker (threads s i)"]
  show "worker (threads s i) = Idle \<or> worker (threads s i) = Done"
    by (auto simp: owns_signal_def)
qed

lemma present_caller:
  assumes "present cache (filename r) s" "owner_has_signal cache (filename r) s"
  shows "present cache (filename r) (step_caller e cache k s)
     \<and> (\<forall>i. filename (request (threads s i)) = filename r \<longrightarrow>
           worker (threads (step_caller e cache k s) i) = worker (threads s i))"
  using assms unfolding present_def owner_has_signal_def
  by (cases "caller (threads s k)")
     (auto simp: step_caller_def Let_def signalpath_def pathname_def owns_signal_def
           split: option.splits)

lemma step_worker_rest:
  "worker (threads s k) = Idle \<or> worker (threads s k) = Done \<Longrightarrow> step_worker e cache k s = s"
  by (auto simp: step_worker_def Let_def)

lemma present_worker:
  assumes "present cache (filename r) s"
  shows "present cache (filename r) (step_worker e cache k s)
     \<and> (\<forall>i. filename (request (threads s i)) = filename r \<longrightarrow>
           worker (threads (step_worker e cache k s) i) = worker (threads s i))
     \<and> count_list (created (step_worker e cache k s)) (path_join cache (filename r))
         = count_list (created s) (path_join cache (filename r))"
proof (cases "filename (request (threads s k)) = filename r")
  case True
  with assms have "worker (threads s k) = Idle \<or> worker (threads s k) = Done"
    unfolding present_def by blast
  then have "step_worker e cache k s = s" by (rule step_worker_rest)
  with assms show ?thesis by simp
next
  case False
  have w: "worker (threads (step_worker e cache k s) i) = worker (threads s i)"
    if "filename (request (threads s i)) = filename r" for i
    using that False step_worker_other [of i k e cache s] by (cases "i = k") auto
  have c: "count_list (created (step_worker e cache k s)) (path_join cache (filename r))
         = count_list (created s) (path_join cache (filename r))"
    using step_worker_created [of e cache k s] False by auto
  from assms have "files s (path_join cache (filename r)) \<noteq> None" by (simp add: present_def)
  then have f: "files (step_worker e cache k s) (path_join cache (filename r)) \<noteq> None"
    by (rule step_worker_datafile_keeps)
  from assms w f c show ?thesis by (simp add: present_def)
qed

lemma signal_has_owner_caller:
  assumes "signal_has_owner cache f s"
  shows "signal_has_owner cache f (step_caller e cache k s)"
  unfolding signal_has_owner_def
proof
  let ?s' = "step_caller e cache k s"
  assume p: "files ?s' (path_join cache (signal_name f)) \<noteq> None"
  show "\<exists>j. filename (request (threads ?s' j)) = f \<and> owns_signal (threads ?s' j)"
  proof (cases "filename (request (threads s k)) = f")
    case False
    then have same: "files ?s' (path_join cache (signal_name f)) = files s (path_join cache (signal_name f))"
      by (cases "caller (threads s k)")
         (auto simp: step_caller_def Let_def signalpath_def split: option.splits)
    with p assms obtain j where j: "filename (request (threads s j)) = f" "owns_signal (threads s j)"
      unfolding signal_has_owner_def by auto
    with False have "j \<noteq> k" by auto
    with j step_caller_other [of j k e cache s] show ?thesis by auto
  next
    case True
    show ?thesis
    proof (cases "owns_signal (threads ?s' k)")
      case True
      with \<open>filename (request (threads s k)) = f\<close> show ?thesis by auto
    next
      case False
      with p True have old: "files s (path_join cache (signal_name f)) \<noteq> None"
        and nk: "\<not> owns_signal (threads s k)"
        by (cases "caller (threads s k)";
            auto simp: step_caller_def Let_def signalpath_def owns_signal_def
                 split: option.splits if_splits)+
      from old assms obtain j where j: "filename (request (threads s j)) = f"
        "owns_signal (threads s j)"
        unfolding signal_has_owner_def by auto
      with nk have "j \<noteq> k" by auto
      with j step_caller_other [of j k e cache s] show ?thesis by auto
    qed
  qed
qed

lemma signal_has_owner_worker:
  assumes "signal_has_owner cache f s"
  shows "signal_has_owner cache f (step_worker e cache k s)"
  unfolding signal_has_owner_def
proof
  let ?s' = "step_worker e cache k s"
  assume p: "files ?s' (path_join cache (signal_name f)) \<noteq> None"
  from step_worker_signal_file [of e cache k s f]
  show "\<exists>j. filename (request (threads ?s' j)) = f \<and> owns_signal (threads ?s' j)"
  proof
    assume same: "files ?s' (path_join cache (signal_name f)) = files s (path_join cache (signal_name f))"
    with p assms obtain j where j: "filename (request (threads s j)) = f" "owns_signal (threads s j)"
      unfolding signal_has_owner_def by auto
    show ?thesis
    proof (cases "owns_signal (threads ?s' j)")
      case True
      with j show ?thesis by auto
    next
      case False
      with j step_worker_other [of j k e cache s] have jk: "j = k"
        by (cases "j = k") (auto simp: owns_signal_def)
      with False j p same show ?thesis
        by (cases "worker (threads s k)")
           (auto simp: step_worker_def Let_def split_def signalpath_def owns_signal_def
                 split: sum.splits if_splits)
    qed
  next
    assume k: "filename (request (threads s k)) = f \<and> worker (threads s k) = Signal"
    with p have "owns_signal (threads ?s' k)"
      by (auto simp: step_worker_def Let_def signalpath_def owns_signal_def split: if_splits)
    with k show ?thesis by auto
  qed
qed

lemma at_rest_step:
  assumes "at_rest e cache (filename r) s"
  shows "at_rest e cache (filename r) (step e cache a s)"
proof (cases a)
  case (Caller k)
  with assms show ?thesis
    unfolding at_rest_def
    by (simp add: present_caller one_owner_caller owner_has_signal_caller
          thread_after_call_caller signal_has_owner_caller)
next
  case (Worker k)
  with assms show ?thesis
    unfolding at_rest_def
    by (simp add: present_worker one_owner_worker owner_has_signal_worker
          thread_after_call_worker signal_has_owner_worker)
qed

lemma at_rest_run:
  "at_rest e cache (filename r) s \<Longrightarrow> at_rest e cache (filename r) (run e cache sched s)"
proof (induction sched arbitrary: s)
  case Nil
  then show ?case by (simp add: run_def)
next
  case (Cons a sched)
  from Cons.IH [OF at_rest_step [OF Cons.prems]] show ?case by (simp add: run_def)
qed

text \<open>What one step of a call does while the entry is at rest.\<close>

lemma rerequest_step:
  assumes "at_rest e cache f s" and "filename (request (threads s i)) = f"
    and "rerequesting f (req_wait (request (threads s i))) (caller (threads s i))"
  shows "rerequesting f (req_wait (request (threads s i)))
           (caller (threads (step_caller e cache k s) i))"
proof (cases "i = k")
  case False
  with assms(3) show ?thesis by (simp add: step_caller_other)
next
  case True
  from assms(1) have ok: "open_error e cache (signal_name f) = None"
    and pr: "present cache f s" and ow: "owner_has_signal cache f s"
    by (simp_all add: at_rest_def)
  from pr have dfile: "files s (path_join cache f) \<noteq> None" by (simp add: present_def)
  show ?thesis
  proof (cases "caller (threads s i)")
    case Start
    with True assms(2) ok show ?thesis
      by (auto simp: step_caller_def Let_def)
  next
    case Opened
    with True assms(2) dfile show ?thesis
      by (auto simp: step_caller_def Let_def pathname_def)
  next
    case Remove_Signal
    with assms(2) ow have "files s (path_join cache (signal_name f)) \<noteq> None"
      unfolding owner_has_signal_def by (auto simp: owns_signal_def)
    with Remove_Signal True assms(2) show ?thesis
      by (auto simp: step_caller_def Let_def signalpath_def)
  next
    case Poll
    with True assms(2,3) show ?thesis
      by (auto simp: step_caller_def Let_def)
  next
    case (Returned g)
    with True assms(3) show ?thesis
      by (auto simp: step_caller_def Let_def)
  qed (use assms(3) in auto)
qed

lemma rerequest_step_worker:
  "rerequesting f w (caller (threads (step_worker e cache k s) i))
     = rerequesting f w (caller (threads s i))"
  by simp

text \<open>
  A call that finds no signal file, or owns it, is held up by nothing: each of its steps
  brings it nearer to its return, and it still finds no signal file or owns it.
\<close>

lemma own_step:
  assumes "at_rest e cache f s" and "filename (request (threads s i)) = f"
    and "rerequesting f (req_wait (request (threads s i))) (caller (threads s i))"
    and "files s (path_join cache (signal_name f)) = None \<or> call_owns (caller (threads s i))"
  shows "(files (step_caller e cache i s) (path_join cache (signal_name f)) = None
           \<or> call_owns (caller (threads (step_caller e cache i s) i)))
     \<and> (steps_left (caller (threads (step_caller e cache i s) i)) < steps_left (caller (threads s i))
          \<or> steps_left (caller (threads s i)) = 0)"
proof -
  from assms(1) have ok: "open_error e cache (signal_name f) = None"
    and pr: "present cache f s" and ow: "owner_has_signal cache f s"
    by (simp_all add: at_rest_def)
  from pr have dfile: "files s (path_join cache f) \<noteq> None" by (simp add: present_def)
  show ?thesis
  proof (cases "caller (threads s i)")
    case Start
    with assms(2,4) ok show ?thesis
      by (auto simp: step_caller_def Let_def signalpath_def)
  next
    case Opened
    with assms(2) dfile show ?thesis
      by (auto simp: step_caller_def Let_def pathname_def)
  next
    case Remove_Signal
    with assms(2) ow have "files s (path_join cache (signal_name f)) \<noteq> None"
      unfolding owner_has_signal_def by (auto simp: owns_signal_def)
    with Remove_Signal assms(2) show ?thesis
      by (auto simp: step_caller_def Let_def signalpath_def)
  next
    case Poll
    with assms(2,4) show ?thesis
      by (auto simp: step_caller_def Let_def signalpath_def)
  next
    case (Returned g)
    with assms(4) show ?thesis
      by (auto simp: step_caller_def Let_def)
  qed (use assms(3) in auto)
qed

lemma steps_left_returned:
  "rerequesting f w c \<Longrightarrow> steps_left c = 0 \<Longrightarrow> c = Returned f"
  by (cases c) auto

lemma steps_left_bound: "steps_left c \<le> 3"
  by (cases c) auto

subsection \<open>A call made while the entry is at rest returns\<close>

lemma run_append: "run e cache (xs @ ys) s = run e cache ys (run e cache xs s)"
  by (simp add: run_def)

lemma run_Cons: "run e cache (a # xs) s = run e cache xs (step e cache a s)"
  by (simp add: run_def)

lemma step_caller_done:
  "caller (threads s i) = Returned g \<Longrightarrow> step_caller e cache i s = s"
  by (simp add: step_caller_def Let_def)

lemma rerequest_run:
  assumes "at_rest e cache (filename r) s" and "filename (request (threads s i)) = filename r"
    and "rerequesting (filename r) (req_wait (request (threads s i))) (caller (threads s i))"
  shows "rerequesting (filename r) (req_wait (request (threads s i)))
           (caller (threads (run e cache sched s) i))"
  using assms
proof (induction sched arbitrary: s)
  case Nil
  then show ?case by (simp add: run_def)
next
  case (Cons a sched)
  have st: "rerequesting (filename r) (req_wait (request (threads s i)))
           (caller (threads (step e cache a s) i))"
  proof (cases a)
    case (Caller k)
    with rerequest_step [OF Cons.prems(1,2,3), of k] show ?thesis by simp
  next
    case (Worker k)
    with Cons.prems(3) show ?thesis by simp
  qed
  from Cons.IH [OF at_rest_step [OF Cons.prems(1)], of a] Cons.prems(2) st
  show ?case by (simp add: run_Cons)
qed

lemma own_run:
  assumes "at_rest e cache (filename r) s" and "filename (request (threads s i)) = filename r"
    and "rerequesting (filename r) (req_wait (request (threads s i))) (caller (threads s i))"
    and "files s (path_join cache (signal_name (filename r))) = None
         \<or> call_owns (caller (threads s i))"
  shows "(files (run e cache (replicate n (Caller i)) s) (path_join cache (signal_name (filename r))) = None
           \<or> call_owns (caller (threads (run e cache (replicate n (Caller i)) s) i)))
     \<and> steps_left (caller (threads (run e cache (replicate n (Caller i)) s) i))
          \<le> steps_left (caller (threads s i)) - n"
  using assms
proof (induction n arbitrary: s)
  case 0
  then show ?case by (simp add: run_def)
next
  case (Suc n)
  let ?s1 = "step_caller e cache i s"
  from own_step [OF Suc.prems(1,2,3,4)]
  have o1: "files ?s1 (path_join cache (signal_name (filename r))) = None
         \<or> call_owns (caller (threads ?s1 i))"
    and d1: "steps_left (caller (threads ?s1 i)) < steps_left (caller (threads s i))
          \<or> steps_left (caller (threads s i)) = 0"
    by auto
  from at_rest_step [OF Suc.prems(1), of "Caller i"]
  have r1: "at_rest e cache (filename r) ?s1" by simp
  from rerequest_step [OF Suc.prems(1,2,3), of i]
  have q1: "rerequesting (filename r) (req_wait (request (threads ?s1 i))) (caller (threads ?s1 i))"
    by simp
  from Suc.prems(2) have f1: "filename (request (threads ?s1 i)) = filename r" by simp
  have d2: "steps_left (caller (threads ?s1 i)) \<le> steps_left (caller (threads s i)) - 1"
  proof (cases "steps_left (caller (threads s i)) = 0")
    case True
    from steps_left_returned [OF Suc.prems(3) True]
    have "caller (threads s i) = Returned (filename r)" .
    with True show ?thesis by (simp add: step_caller_done)
  next
    case False
    with d1 show ?thesis by simp
  qed
  from Suc.IH [OF r1 f1 q1 o1]
  have o2: "files (run e cache (replicate n (Caller i)) ?s1) (path_join cache (signal_name (filename r))) = None
           \<or> call_owns (caller (threads (run e cache (replicate n (Caller i)) ?s1) i))"
    and d3: "steps_left (caller (threads (run e cache (replicate n (Caller i)) ?s1) i))
          \<le> steps_left (caller (threads ?s1 i)) - n"
    by auto
  from d3 d2 have "steps_left (caller (threads (run e cache (replicate n (Caller i)) ?s1) i))
          \<le> steps_left (caller (threads s i)) - Suc n" by simp
  with o2 show ?case by (simp add: run_Cons)
qed

lemma own_returns:
  assumes "at_rest e cache (filename r) s" and "filename (request (threads s i)) = filename r"
    and "rerequesting (filename r) (req_wait (request (threads s i))) (caller (threads s i))"
    and "files s (path_join cache (signal_name (filename r))) = None
         \<or> call_owns (caller (threads s i))"
    and "steps_left (caller (threads s i)) \<le> n"
  shows "caller (threads (run e cache (replicate n (Caller i)) s) i) = Returned (filename r)
     \<and> files (run e cache (replicate n (Caller i)) s) (path_join cache (signal_name (filename r))) = None"
proof -
  let ?s' = "run e cache (replicate n (Caller i)) s"
  from own_run [OF assms(1-4), of n] assms(5)
  have o: "files ?s' (path_join cache (signal_name (filename r))) = None
         \<or> call_owns (caller (threads ?s' i))"
    and z: "steps_left (caller (threads ?s' i)) = 0"
    by auto
  from rerequest_run [OF assms(1-3)]
  have "rerequesting (filename r) (req_wait (request (threads s i))) (caller (threads ?s' i))" .
  from steps_left_returned [OF this z] have ret: "caller (threads ?s' i) = Returned (filename r)" .
  with o show ?thesis by auto
qed

lemma nowait_returns:
  assumes "at_rest e cache (filename r) s" and "filename (request (threads s i)) = filename r"
    and "rerequesting (filename r) (req_wait (request (threads s i))) (caller (threads s i))"
    and "\<not> req_wait (request (threads s i))"
  shows "caller (threads (run e cache [Caller i, Caller i, Caller i] s) i) = Returned (filename r)"
proof (cases "files s (path_join cache (signal_name (filename r))) = None
         \<or> call_owns (caller (threads s i))")
  case True
  from own_returns [OF assms(1-3) True steps_left_bound]
  show ?thesis by (simp add: numeral_3_eq_3)
next
  case False
  then have held: "files s (path_join cache (signal_name (filename r))) \<noteq> None"
    and no: "\<not> call_owns (caller (threads s i))" by auto
  from assms(1) have ok: "open_error e cache (signal_name (filename r)) = None"
    by (simp add: at_rest_def)
  from assms(3,4) no have "caller (threads s i) = Start \<or> caller (threads s i) = Returned (filename r)"
    by (cases "caller (threads s i)") auto
  then show ?thesis
  proof
    assume "caller (threads s i) = Start"
    with held ok assms(2,4)
    have "caller (threads (step_caller e cache i s) i) = Returned (filename r)"
      by (auto simp: step_caller_def Let_def signalpath_def)
    then show ?thesis
      by (simp add: run_Cons run_def step_caller_done)
  next
    assume "caller (threads s i) = Returned (filename r)"
    then show ?thesis
      by (simp add: run_Cons run_def step_caller_done)
  qed
qed

subsection \<open>A data file that exists was created by a thread\<close>

lemma signal_opened_caller:
  assumes "signal_opened e cache f s"
  shows "signal_opened e cache f (step_caller e cache k s)"
  using assms unfolding signal_opened_def
  by (cases "caller (threads s k)")
     (auto simp: step_caller_def Let_def split: option.splits if_splits)

lemma signal_opened_worker:
  assumes "signal_opened e cache f s"
  shows "signal_opened e cache f (step_worker e cache k s)"
  using assms unfolding signal_opened_def
  by (simp add: step_worker_idle)

lemma file_has_thread_caller:
  assumes "file_has_thread cache (filename r) s"
  shows "file_has_thread cache (filename r) (step_caller e cache k s)"
  using assms unfolding file_has_thread_def
  by (cases "caller (threads s k)")
     (auto simp: step_caller_def Let_def signalpath_def split: option.splits if_splits)

lemma file_has_thread_worker:
  assumes "file_has_thread cache (filename r) s"
  shows "file_has_thread cache (filename r) (step_worker e cache k s)"
  unfolding file_has_thread_def
proof
  let ?s' = "step_worker e cache k s"
  assume p: "files ?s' (path_join cache (filename r)) \<noteq> None"
  show "\<exists>j. filename (request (threads ?s' j)) = filename r \<and> worker (threads ?s' j) \<noteq> Idle"
  proof (cases "files ?s' (path_join cache (filename r)) = files s (path_join cache (filename r))")
    case True
    with p assms obtain j where "filename (request (threads s j)) = filename r"
      "worker (threads s j) \<noteq> Idle"
      unfolding file_has_thread_def by auto
    then show ?thesis by (auto simp: step_worker_idle)
  next
    case False
    from step_worker_datafile_changes [OF False]
    have "filename (request (threads s k)) = filename r" "worker (threads s k) \<noteq> Idle"
      by auto
    then show ?thesis by (auto simp: step_worker_idle)
  qed
qed

lemma created_inv_step:
  assumes "signal_opened e cache (filename r) s \<and> file_has_thread cache (filename r) s
     \<and> signal_has_owner cache (filename r) s"
  shows "signal_opened e cache (filename r) (step e cache a s)
     \<and> file_has_thread cache (filename r) (step e cache a s)
     \<and> signal_has_owner cache (filename r) (step e cache a s)"
proof (cases a)
  case (Caller k)
  with assms show ?thesis
    by (simp add: signal_opened_caller file_has_thread_caller signal_has_owner_caller)
next
  case (Worker k)
  with assms show ?thesis
    by (simp add: signal_opened_worker file_has_thread_worker signal_has_owner_worker)
qed

lemma created_inv_run:
  "signal_opened e cache (filename r) s \<and> file_has_thread cache (filename r) s
     \<and> signal_has_owner cache (filename r) s \<Longrightarrow>
   signal_opened e cache (filename r) (run e cache sched s)
     \<and> file_has_thread cache (filename r) (run e cache sched s)
     \<and> signal_has_owner cache (filename r) (run e cache sched s)"
proof (induction sched arbitrary: s)
  case Nil
  then show ?case by (simp add: run_def)
next
  case (Cons a sched)
  from Cons.IH [OF created_inv_step [OF Cons.prems]] show ?case by (simp add: run_def)
qed

lemma created_inv_init:
  "signal_opened e cache f (init reqs) \<and> file_has_thread cache f (init reqs)
     \<and> signal_has_owner cache f (init reqs)"
  by (simp add: init_def signal_opened_def file_has_thread_def signal_has_owner_def)

lemma at_rest_reached:
  assumes "files (run e cache sched0 (init reqs)) (path_join cache (filename r)) \<noteq> None"
    and "files (run e cache sched0 (init reqs)) (path_join cache (signal_name (filename r))) = None"
  shows "at_rest e cache (filename r) (run e cache sched0 (init reqs))"
proof -
  let ?s = "run e cache sched0 (init reqs) :: 'a system"
  from owner_inv_run [OF owner_inv_init]
  have o: "one_owner (filename r) ?s" "owner_has_signal cache (filename r) ?s"
    "thread_after_call (filename r) ?s"
    by blast+
  from created_inv_run [OF created_inv_init]
  have c: "signal_opened e cache (filename r) ?s" "file_has_thread cache (filename r) ?s"
    "signal_has_owner cache (filename r) ?s"
    by blast+
  from o(2) assms have p: "present cache (filename r) ?s" by (rule no_signal_present)
  from c(2) assms(1) obtain j where "filename (request (threads ?s j)) = filename r"
    "worker (threads ?s j) \<noteq> Idle"
    unfolding file_has_thread_def by blast
  with c(1) have "open_error e cache (signal_name (filename r)) = None"
    unfolding signal_opened_def by blast
  with o c(3) p show ?thesis by (simp add: at_rest_def)
qed

lemma at_rest_quiet:
  assumes "at_rest e cache (filename r) s"
  shows "(\<forall>i. filename (request (threads s i)) = filename r \<longrightarrow>
           worker (threads (run e cache sched s) i) = worker (threads s i))
     \<and> count_list (created (run e cache sched s)) (path_join cache (filename r))
         = count_list (created s) (path_join cache (filename r))"
  using assms
proof (induction sched arbitrary: s)
  case Nil
  then show ?case by (simp add: run_def)
next
  case (Cons a sched)
  from Cons.prems have p: "present cache (filename r) s"
    and o: "owner_has_signal cache (filename r) s"
    by (simp_all add: at_rest_def)
  have st: "(\<forall>i. filename (request (threads s i)) = filename r \<longrightarrow>
           worker (threads (step e cache a s) i) = worker (threads s i))
     \<and> count_list (created (step e cache a s)) (path_join cache (filename r))
         = count_list (created s) (path_join cache (filename r))"
  proof (cases a)
    case (Caller k)
    with present_caller [OF p o, of e k] show ?thesis by simp
  next
    case (Worker k)
    with present_worker [OF p, of e k] show ?thesis by simp
  qed
  from Cons.IH [OF at_rest_step [OF Cons.prems], of a] st show ?case by (simp add: run_Cons)
qed

lemma wait_returns:
  assumes "at_rest e cache (filename r) s" and "filename (request (threads s i)) = filename r"
    and "rerequesting (filename r) (req_wait (request (threads s i))) (caller (threads s i))"
  shows "\<exists>j. filename (request (threads s j)) = filename r
     \<and> caller (threads (run e cache [Caller j, Caller j, Caller i, Caller i, Caller i] s) i)
         = Returned (filename r)"
proof (cases "files s (path_join cache (signal_name (filename r))) = None
         \<or> call_owns (caller (threads s i))")
  case True
  have "steps_left (caller (threads s i)) \<le> 5"
    using steps_left_bound [of "caller (threads s i)"] by simp
  from own_returns [OF assms(1-3) True this]
  have "caller (threads (run e cache [Caller i, Caller i, Caller i, Caller i, Caller i] s) i)
         = Returned (filename r)"
    by (simp add: eval_nat_numeral)
  with assms(2) show ?thesis by blast
next
  case False
  then have held: "files s (path_join cache (signal_name (filename r))) \<noteq> None"
    and no: "\<not> call_owns (caller (threads s i))" by auto
  from assms(1) have pr: "present cache (filename r) s"
    and sh: "signal_has_owner cache (filename r) s"
    by (simp_all add: at_rest_def)
  from sh held obtain h where h: "filename (request (threads s h)) = filename r"
    "owns_signal (threads s h)"
    unfolding signal_has_owner_def by blast
  from pr h(1) have hw: "worker (threads s h) = Idle \<or> worker (threads s h) = Done"
    and hs: "caller (threads s h) \<noteq> Spawn" and hr: "\<not> raised (caller (threads s h))"
    unfolding present_def by blast+
  from h(2) hw have ho: "call_owns (caller (threads s h))"
    by (auto simp: owns_signal_def)
  with hs hr have hc: "caller (threads s h) = Opened \<or> caller (threads s h) = Remove_Signal"
    by (cases "caller (threads s h)") auto
  then have hq: "rerequesting (filename r) (req_wait (request (threads s h))) (caller (threads s h))"
    and hl: "steps_left (caller (threads s h)) \<le> 2"
    by auto
  from ho no have ne: "i \<noteq> h" by auto
  let ?s2 = "run e cache (replicate 2 (Caller h)) s"
  from own_returns [OF assms(1) h(1) hq _ hl] ho
  have free: "files ?s2 (path_join cache (signal_name (filename r))) = None" by blast
  have same: "threads ?s2 i = threads s i"
    using ne by (simp add: eval_nat_numeral run_Cons run_def step_caller_other)
  have r2: "at_rest e cache (filename r) ?s2" using assms(1) by (rule at_rest_run)
  from same assms(2) have f2: "filename (request (threads ?s2 i)) = filename r" by simp
  from same assms(3)
  have q2: "rerequesting (filename r) (req_wait (request (threads ?s2 i))) (caller (threads ?s2 i))"
    by simp
  from own_returns [OF r2 f2 q2 _ steps_left_bound] free
  have "caller (threads (run e cache (replicate 3 (Caller i)) ?s2) i) = Returned (filename r)"
    by blast
  then have "caller (threads (run e cache [Caller h, Caller h, Caller i, Caller i, Caller i] s) i)
         = Returned (filename r)"
    by (simp add: eval_nat_numeral run_def)
  with h(1) show ?thesis by blast
qed

section \<open>The claims about the file cache\<close>

lemma is_file:
  "(case fs p of Some (Csv df) \<Rightarrow> True | _ \<Rightarrow> False) \<Longrightarrow> fs p \<noteq> None"
  by (auto split: option.splits)

lemma is_absent:
  "(case fs p of None \<Rightarrow> True | _ \<Rightarrow> False) \<Longrightarrow> fs p = None"
  by (auto split: option.splits)

lemma is_signal_file:
  "(case fs p of Some Empty \<Rightarrow> True | _ \<Rightarrow> False) \<Longrightarrow> fs p = Some Empty"
  by (auto split: option.splits file_data.splits)

lemma count_list_one: "x \<in> set xs \<Longrightarrow> count_list xs x \<le> 1 \<Longrightarrow> count_list xs x = 1"
  by (metis count_list_0_iff le_neq_implies_less less_one)

text \<open>
  C1, as the claim states it, fails twice. For a format that \<open>create_data_file\<close> does not
  write (\<open>collect_sample\<close> passes the format \<open>dummy\<close>) no file is written, and a request
  made after the first has returned runs \<open>create_data_file\<close> again: two requests in a
  row print the path twice. And for a key with a written format whose creation raises
  (\<open>default_rng\<close> refuses the seed -1), the call with \<open>wait\<close> returns the file name
  although no file was completed.
\<close>

theorem create_data_file_counterexample:
  "created
     (run test_env ''/tmp/tykhe-1''
        [Caller 0, Caller 0, Caller 0, Worker 0, Worker 0, Worker 0, Caller 0,
         Caller 1, Caller 1, Caller 1, Worker 1, Worker 1, Worker 1, Caller 1]
        (init (\<lambda>i. \<lparr>req_study = ''twosample_null'', req_size = ''4'', req_format = ''dummy'',
                      req_sid = ''42'', req_wait = True, req_pid = 0\<rparr>) :: int system))
   = [''/tmp/tykhe-1/tykhe_twosample_null_4_42.dummy'',
      ''/tmp/tykhe-1/tykhe_twosample_null_4_42.dummy'']
   \<and> caller (threads
      (run test_env ''/tmp/tykhe-1'' [Caller 0, Caller 0, Caller 0, Worker 0, Caller 0]
        (init (\<lambda>i. \<lparr>req_study = ''levels'', req_size = ''3'', req_format = ''csv'',
                      req_sid = ''-1'', req_wait = True, req_pid = 0\<rparr>) :: int system)) 0)
     = Returned ''tykhe_levels_3_-1.csv''
   \<and> worker (threads
      (run test_env ''/tmp/tykhe-1'' [Caller 0, Caller 0, Caller 0, Worker 0, Caller 0]
        (init (\<lambda>i. \<lparr>req_study = ''levels'', req_size = ''3'', req_format = ''csv'',
                      req_sid = ''-1'', req_wait = True, req_pid = 0\<rparr>) :: int system)) 0)
     = Failed ValueError
   \<and> (case files
        (run test_env ''/tmp/tykhe-1'' [Caller 0, Caller 0, Caller 0, Worker 0, Caller 0]
          (init (\<lambda>i. \<lparr>req_study = ''levels'', req_size = ''3'', req_format = ''csv'',
                        req_sid = ''-1'', req_wait = True, req_pid = 0\<rparr>) :: int system))
        ''/tmp/tykhe-1/tykhe_levels_3_-1.csv'' of
      None \<Rightarrow> True | _ \<Rightarrow> False)"
  by code_simp

text \<open>
  C1, amended. Let every request made for the file name \<open>f\<close> ask for one of the formats
  csv, xlsx, dta, sav. Then, from the empty cache directory, for any number of calls in
  any number of processes and under every schedule: \<open>create_data_file\<close> prints the path
  of \<open>f\<close> at most once; at most one thread owns the signal file of \<open>f\<close>; at most one
  creation thread for \<open>f\<close> is ever started; every call that returns, returns the file
  name of its request; and a call with \<open>wait\<close> has returned only with the data file in
  place, unless its own creation thread was ended by an exception.
\<close>

theorem at_most_once:
  assumes "\<forall>i. filename (reqs i) = f \<longrightarrow> writes_file (req_format (reqs i))"
  shows "count_list (created (run e cache sched (init reqs))) (path_join cache f) \<le> 1
     \<and> (\<forall>i j. filename (reqs i) = f \<and> filename (reqs j) = f
            \<and> owns_signal (threads (run e cache sched (init reqs)) i)
            \<and> owns_signal (threads (run e cache sched (init reqs)) j) \<longrightarrow> i = j)
     \<and> (\<forall>i j. filename (reqs i) = f \<and> filename (reqs j) = f
            \<and> worker (threads (run e cache sched (init reqs)) i) \<noteq> Idle
            \<and> worker (threads (run e cache sched (init reqs)) j) \<noteq> Idle \<longrightarrow> i = j)
     \<and> (\<forall>i name. caller (threads (run e cache sched (init reqs)) i) = Returned name
            \<longrightarrow> name = filename (reqs i))
     \<and> (\<forall>i. filename (reqs i) = f \<and> req_wait (reqs i)
            \<and> returned (caller (threads (run e cache sched (init reqs)) i))
            \<longrightarrow> files (run e cache sched (init reqs)) (path_join cache f) \<noteq> None
                \<or> failed (worker (threads (run e cache sched (init reqs)) i)))"
proof -
  let ?s = "run e cache sched (init reqs) :: 'a system"
  have rq: "request (threads ?s i) = reqs i" for i by (simp add: init_def)
  from assms have "all_written f (init reqs :: 'a system)" by (simp add: all_written_def init_def)
  with cache_inv_init have inv: "cache_inv cache f ?s" by (rule cache_inv_run)
  have nm: "name = filename (reqs i)" if "caller (threads ?s i) = Returned name" for i name
    using run_returns_filename [of "init reqs :: 'a system" e cache sched i name] that
    by (simp add: init_def)
  from inv have "printed_once cache f ?s" "one_owner f ?s" "one_thread f ?s" "waiter_has_file cache f ?s"
    by (simp_all add: cache_inv_def)
  with nm show ?thesis
    unfolding printed_once_def one_owner_def one_thread_def waiter_has_file_def rq
    by blast
qed

theorem at_most_once_witness:
  "count_list
     (created
       (run test_env ''/tmp/tykhe-1''
          [Caller 0, Caller 1, Caller 2, Caller 0, Caller 1, Caller 0, Worker 0, Caller 2,
           Worker 0, Caller 0, Worker 0, Caller 1, Caller 0, Caller 2,
           Caller 3, Caller 3, Caller 3]
          (init (\<lambda>i. \<lparr>req_study = ''levels'', req_size = ''3'', req_format = ''sav'',
                        req_sid = ''7'', req_wait = (i \<noteq> 2), req_pid = i mod 2\<rparr>) :: int system)))
     ''/tmp/tykhe-1/tykhe_levels_3_7.sav'' = 1
   \<and> map (\<lambda>i. caller (threads
       (run test_env ''/tmp/tykhe-1''
          [Caller 0, Caller 1, Caller 2, Caller 0, Caller 1, Caller 0, Worker 0, Caller 2,
           Worker 0, Caller 0, Worker 0, Caller 1, Caller 0, Caller 2,
           Caller 3, Caller 3, Caller 3]
          (init (\<lambda>i. \<lparr>req_study = ''levels'', req_size = ''3'', req_format = ''sav'',
                        req_sid = ''7'', req_wait = (i \<noteq> 2), req_pid = i mod 2\<rparr>) :: int system)) i))
       [0, 1, 2, 3]
     = [Returned ''tykhe_levels_3_7.sav'', Returned ''tykhe_levels_3_7.sav'',
        Returned ''tykhe_levels_3_7.sav'', Returned ''tykhe_levels_3_7.sav'']"
proof -
  let ?reqs = "\<lambda>i. \<lparr>req_study = ''levels'', req_size = ''3'', req_format = ''sav'',
                        req_sid = ''7'', req_wait = (i \<noteq> 2), req_pid = i mod 2\<rparr>"
  let ?sched = "[Caller 0, Caller 1, Caller 2, Caller 0, Caller 1, Caller 0, Worker 0, Caller 2,
           Worker 0, Caller 0, Worker 0, Caller 1, Caller 0, Caller 2,
           Caller 3, Caller 3, Caller 3]"
  let ?s = "run test_env ''/tmp/tykhe-1'' ?sched (init ?reqs :: int system)"
  have h: "\<forall>i. filename (?reqs i) = ''tykhe_levels_3_7.sav'' \<longrightarrow> writes_file (req_format (?reqs i))"
    by (simp add: writes_file_def)
  have pj: "path_join ''/tmp/tykhe-1'' ''tykhe_levels_3_7.sav'' = ''/tmp/tykhe-1/tykhe_levels_3_7.sav''"
    by (simp add: path_join_def)
  from at_most_once [OF h, of test_env "''/tmp/tykhe-1''" ?sched]
  have le: "count_list (created ?s) ''/tmp/tykhe-1/tykhe_levels_3_7.sav'' \<le> 1"
    unfolding pj by blast
  have ge: "''/tmp/tykhe-1/tykhe_levels_3_7.sav'' \<in> set (created ?s)" by code_simp
  from ge le have one: "count_list (created ?s) ''/tmp/tykhe-1/tykhe_levels_3_7.sav'' = 1"
    by (rule count_list_one)
  have ret: "map (\<lambda>i. caller (threads ?s i)) [0, 1, 2, 3]
     = [Returned ''tykhe_levels_3_7.sav'', Returned ''tykhe_levels_3_7.sav'',
        Returned ''tykhe_levels_3_7.sav'', Returned ''tykhe_levels_3_7.sav'']"
    by code_simp
  from one ret show ?thesis by (rule conjI)
qed

text \<open>
  C7, as the claim states it, fails for a call that overlaps another call for the same
  key. The data file exists and the signal file does not; call 1 creates the signal
  file; call 2 (with \<open>wait\<close>) meets it, does not create a signal file of its own, and
  after two steps is still in the polling loop.
\<close>

theorem repeated_request_counterexample:
  "(case files
        (run test_env ''/tmp/tykhe-1''
          [Caller 0, Caller 0, Caller 0, Worker 0, Worker 0, Worker 0, Caller 0]
          (init (\<lambda>i. \<lparr>req_study = ''twosample_null'', req_size = ''4'', req_format = ''csv'',
                        req_sid = ''42'', req_wait = True, req_pid = 0\<rparr>) :: int system))
        ''/tmp/tykhe-1/tykhe_twosample_null_4_42.csv'' of
      Some (Csv df) \<Rightarrow> True | _ \<Rightarrow> False)
   \<and> (case files
        (run test_env ''/tmp/tykhe-1''
          [Caller 0, Caller 0, Caller 0, Worker 0, Worker 0, Worker 0, Caller 0]
          (init (\<lambda>i. \<lparr>req_study = ''twosample_null'', req_size = ''4'', req_format = ''csv'',
                        req_sid = ''42'', req_wait = True, req_pid = 0\<rparr>) :: int system))
        ''/tmp/tykhe-1/creating-tykhe_twosample_null_4_42.csv'' of
      None \<Rightarrow> True | _ \<Rightarrow> False)
   \<and> caller (threads
        (run test_env ''/tmp/tykhe-1''
          [Caller 0, Caller 0, Caller 0, Worker 0, Worker 0, Worker 0, Caller 0,
           Caller 1, Caller 2, Caller 2]
          (init (\<lambda>i. \<lparr>req_study = ''twosample_null'', req_size = ''4'', req_format = ''csv'',
                        req_sid = ''42'', req_wait = True, req_pid = 0\<rparr>) :: int system)) 1)
     = Opened
   \<and> caller (threads
        (run test_env ''/tmp/tykhe-1''
          [Caller 0, Caller 0, Caller 0, Worker 0, Worker 0, Worker 0, Caller 0,
           Caller 1, Caller 2, Caller 2]
          (init (\<lambda>i. \<lparr>req_study = ''twosample_null'', req_size = ''4'', req_format = ''csv'',
                        req_sid = ''42'', req_wait = True, req_pid = 0\<rparr>) :: int system)) 2)
     = Poll"
  by code_simp

text \<open>
  C7, amended. In a state reached from the empty cache directory in which the data file
  of a key exists and its signal file does not, and under every schedule from there: no
  creation thread for the key moves or starts, and \<open>create_data_file\<close> prints no further
  line for its path. For a call for the key that has not begun in that state: running
  alone from there, it creates the signal file, sees the data file, removes the signal
  file and returns the file name, leaving the cache directory, the memory of the
  processes and the printed lines as they were; after any schedule, a call without
  \<open>wait\<close> returns the file name within three steps of its own; and after any schedule,
  there is a call for the key (the one that holds the signal file, if another call does)
  such that after two steps of that call it returns the file name within three steps
  of its own.
\<close>

theorem repeated_request:
  assumes "files (run e cache sched0 (init reqs)) (pathname cache r) \<noteq> None"
    and "files (run e cache sched0 (init reqs)) (signalpath cache r) = None"
  shows "(count_list (created (run e cache sched (run e cache sched0 (init reqs)))) (pathname cache r)
            = count_list (created (run e cache sched0 (init reqs))) (pathname cache r)
          \<and> (\<forall>k. filename (reqs k) = filename r \<longrightarrow>
                worker (threads (run e cache sched (run e cache sched0 (init reqs))) k)
                  = worker (threads (run e cache sched0 (init reqs)) k)))
     \<and> (filename (reqs i) = filename r
          \<and> caller (threads (run e cache sched0 (init reqs)) i) = Start \<longrightarrow>
          caller (threads (run e cache [Caller i] (run e cache sched0 (init reqs))) i) = Opened
          \<and> files (run e cache [Caller i] (run e cache sched0 (init reqs))) (signalpath cache r)
               = Some Empty
          \<and> caller (threads (run e cache [Caller i, Caller i] (run e cache sched0 (init reqs))) i)
               = Remove_Signal
          \<and> run e cache [Caller i, Caller i, Caller i] (run e cache sched0 (init reqs))
               = (run e cache sched0 (init reqs))
                   \<lparr>threads := (threads (run e cache sched0 (init reqs)))
                      (i := (threads (run e cache sched0 (init reqs)) i)
                              \<lparr>caller := Returned (filename r)\<rparr>)\<rparr>
          \<and> (\<not> req_wait (reqs i) \<longrightarrow>
                caller (threads
                   (run e cache [Caller i, Caller i, Caller i]
                      (run e cache sched (run e cache sched0 (init reqs)))) i)
                  = Returned (filename r))
          \<and> (\<exists>j. filename (reqs j) = filename r
                \<and> caller (threads
                     (run e cache [Caller j, Caller j, Caller i, Caller i, Caller i]
                        (run e cache sched (run e cache sched0 (init reqs)))) i)
                    = Returned (filename r)))"
proof -
  let ?s = "run e cache sched0 (init reqs) :: 'a system"
  let ?s' = "run e cache sched ?s"
  have rq: "request (threads (init reqs :: 'a system) j) = reqs j" for j by (simp add: init_def)
  from assms have rest: "at_rest e cache (filename r) ?s"
    by (intro at_rest_reached) (simp_all add: pathname_def signalpath_def)
  then have ok: "open_error e cache (signal_name (filename r)) = None"
    by (simp add: at_rest_def)
  from at_rest_quiet [OF rest, where sched = sched] have any:
    "count_list (created ?s') (pathname cache r) = count_list (created ?s) (pathname cache r)
     \<and> (\<forall>k. filename (reqs k) = filename r \<longrightarrow>
           worker (threads ?s' k) = worker (threads ?s k))"
    by (simp add: pathname_def rq)
  have alone: "caller (threads (run e cache [Caller i] ?s) i) = Opened
          \<and> files (run e cache [Caller i] ?s) (signalpath cache r) = Some Empty
          \<and> caller (threads (run e cache [Caller i, Caller i] ?s) i) = Remove_Signal
          \<and> run e cache [Caller i, Caller i, Caller i] ?s
               = ?s\<lparr>threads := (threads ?s)(i := (threads ?s i)\<lparr>caller := Returned (filename r)\<rparr>)\<rparr>"
    if f: "filename (reqs i) = filename r" and st: "caller (threads ?s i) = Start"
  proof -
    from f have sp: "signalpath cache (request (threads ?s i)) = signalpath cache r"
      and pn: "pathname cache (request (threads ?s i)) = pathname cache r"
      and fn: "filename (request (threads ?s i)) = filename r"
      by (simp_all add: rq signalpath_def pathname_def)
    let ?s1 = "?s\<lparr>files := (files ?s)(signalpath cache r \<mapsto> Empty),
                   threads := (threads ?s)(i := (threads ?s i)\<lparr>caller := Opened\<rparr>)\<rparr>"
    let ?s2 = "?s\<lparr>files := (files ?s)(signalpath cache r \<mapsto> Empty),
                   threads := (threads ?s)(i := (threads ?s i)\<lparr>caller := Remove_Signal\<rparr>)\<rparr>"
    have ne: "signalpath cache r \<noteq> pathname cache r"
      by (simp add: signalpath_def pathname_def)
    have s1: "step_caller e cache i ?s = ?s1"
      using st assms(2) sp fn ok by (simp add: step_caller_def Let_def)
    have s2: "step_caller e cache i ?s1 = ?s2"
      using assms(1) sp pn ne by (simp add: step_caller_def Let_def)
    have "(files ?s)(signalpath cache r := None) = files ?s"
      using assms(2) by (simp add: fun_upd_idem)
    then have s3: "step_caller e cache i ?s2
        = ?s\<lparr>threads := (threads ?s)(i := (threads ?s i)\<lparr>caller := Returned (filename r)\<rparr>)\<rparr>"
      using sp f by (simp add: step_caller_def Let_def rq)
    from s1 s2 s3 show ?thesis by (simp add: run_def)
  qed
  have later: "(\<not> req_wait (reqs i) \<longrightarrow>
                caller (threads (run e cache [Caller i, Caller i, Caller i] ?s') i)
                  = Returned (filename r))
          \<and> (\<exists>j. filename (reqs j) = filename r
                \<and> caller (threads
                     (run e cache [Caller j, Caller j, Caller i, Caller i, Caller i] ?s') i)
                    = Returned (filename r))"
    if f: "filename (reqs i) = filename r" and st: "caller (threads ?s i) = Start"
  proof -
    from f have fn: "filename (request (threads ?s i)) = filename r" by (simp add: rq)
    from st have "rerequesting (filename r) (req_wait (request (threads ?s i))) (caller (threads ?s i))"
      by simp
    from rerequest_run [OF rest fn this, of sched]
    have rr: "rerequesting (filename r) (req_wait (request (threads ?s' i))) (caller (threads ?s' i))"
      by simp
    from f have fn': "filename (request (threads ?s' i)) = filename r" by (simp add: rq)
    from rest have rest': "at_rest e cache (filename r) ?s'" by (rule at_rest_run)
    have a: "caller (threads (run e cache [Caller i, Caller i, Caller i] ?s') i)
                  = Returned (filename r)"
      if "\<not> req_wait (reqs i)"
    proof -
      from that have "\<not> req_wait (request (threads ?s' i))" by (simp add: rq)
      with rest' fn' rr show ?thesis by (rule nowait_returns)
    qed
    from wait_returns [OF rest' fn' rr]
    obtain j where "filename (request (threads ?s' j)) = filename r"
      and j: "caller (threads (run e cache [Caller j, Caller j, Caller i, Caller i, Caller i] ?s') i)
         = Returned (filename r)"
      by blast
    then have "filename (reqs j) = filename r" by (simp add: rq)
    with j a show ?thesis by blast
  qed
  from any alone later show ?thesis by blast
qed

theorem repeated_request_witness:
  "(\<exists>j. caller (threads
        (run test_env ''/tmp/tykhe-1'' [Caller j, Caller j, Caller 2, Caller 2, Caller 2]
          (run test_env ''/tmp/tykhe-1'' [Caller 1, Caller 2, Caller 2]
            (run test_env ''/tmp/tykhe-1''
              [Caller 0, Caller 0, Caller 0, Worker 0, Worker 0, Worker 0, Caller 0]
              (init (\<lambda>i. \<lparr>req_study = ''twosample_null'', req_size = ''4'', req_format = ''csv'',
                        req_sid = ''42'', req_wait = True, req_pid = 0\<rparr>) :: int system)))) 2)
      = Returned ''tykhe_twosample_null_4_42.csv'')
   \<and> run test_env ''/tmp/tykhe-1'' [Caller 2, Caller 2, Caller 2]
        (run test_env ''/tmp/tykhe-1''
          [Caller 0, Caller 0, Caller 0, Worker 0, Worker 0, Worker 0, Caller 0]
          (init (\<lambda>i. \<lparr>req_study = ''twosample_null'', req_size = ''4'', req_format = ''csv'',
                        req_sid = ''42'', req_wait = True, req_pid = 0\<rparr>) :: int system))
     = (run test_env ''/tmp/tykhe-1''
          [Caller 0, Caller 0, Caller 0, Worker 0, Worker 0, Worker 0, Caller 0]
          (init (\<lambda>i. \<lparr>req_study = ''twosample_null'', req_size = ''4'', req_format = ''csv'',
                        req_sid = ''42'', req_wait = True, req_pid = 0\<rparr>) :: int system))
        \<lparr>threads :=
           (threads
             (run test_env ''/tmp/tykhe-1''
               [Caller 0, Caller 0, Caller 0, Worker 0, Worker 0, Worker 0, Caller 0]
               (init (\<lambda>i. \<lparr>req_study = ''twosample_null'', req_size = ''4'', req_format = ''csv'',
                        req_sid = ''42'', req_wait = True, req_pid = 0\<rparr>) :: int system)))
           (2 := (threads
                   (run test_env ''/tmp/tykhe-1''
                     [Caller 0, Caller 0, Caller 0, Worker 0, Worker 0, Worker 0, Caller 0]
                     (init (\<lambda>i. \<lparr>req_study = ''twosample_null'', req_size = ''4'', req_format = ''csv'',
                        req_sid = ''42'', req_wait = True, req_pid = 0\<rparr>) :: int system)) 2)
                 \<lparr>caller := Returned ''tykhe_twosample_null_4_42.csv''\<rparr>)\<rparr>"
proof -
  let ?r = "\<lparr>req_study = ''twosample_null'', req_size = ''4'', req_format = ''csv'',
             req_sid = ''42'', req_wait = True, req_pid = 0\<rparr>"
  let ?c = "''/tmp/tykhe-1''"
  let ?s = "run test_env ?c [Caller 0, Caller 0, Caller 0, Worker 0, Worker 0, Worker 0, Caller 0]
              (init (\<lambda>i. ?r) :: int system)"
  let ?s' = "run test_env ?c [Caller 1, Caller 2, Caller 2] ?s"
  have "case files ?s (pathname ?c ?r) of Some (Csv df) \<Rightarrow> True | _ \<Rightarrow> False"
    by code_simp
  then have p: "files ?s (pathname ?c ?r) \<noteq> None" by (rule is_file)
  have "case files ?s (signalpath ?c ?r) of None \<Rightarrow> True | _ \<Rightarrow> False"
    by code_simp
  then have a: "files ?s (signalpath ?c ?r) = None" by (rule is_absent)
  have st: "caller (threads ?s 2) = Start" by code_simp
  have fn: "filename ?r = ''tykhe_twosample_null_4_42.csv''" by code_simp
  from repeated_request [OF p a, where i = 2 and sched = "[Caller 1, Caller 2, Caller 2]"] st
  have alone: "run test_env ?c [Caller 2, Caller 2, Caller 2] ?s
      = ?s\<lparr>threads := (threads ?s)(2 := (threads ?s 2)\<lparr>caller := Returned (filename ?r)\<rparr>)\<rparr>"
    and ex: "\<exists>j. caller (threads
        (run test_env ?c [Caller j, Caller j, Caller 2, Caller 2, Caller 2] ?s') 2)
      = Returned (filename ?r)"
    by simp_all
  from ex alone show ?thesis unfolding fn by (rule conjI)
qed

text \<open>
  C5, as the claim states it, fails: for a study that is not declared, the KeyError ends
  the creation thread, \<open>get_data_file\<close> returns the file name, and the signal file stays.
\<close>

theorem unknown_study_counterexample:
  "caller (threads
      (run test_env ''/tmp/tykhe-1'' [Caller 0, Caller 0, Caller 0, Worker 0, Caller 0]
        (init (\<lambda>i. \<lparr>req_study = ''nostudy'', req_size = ''4'', req_format = ''csv'',
                      req_sid = ''42'', req_wait = True, req_pid = 0\<rparr>) :: int system)) 0)
     = Returned ''tykhe_nostudy_4_42.csv''
   \<and> worker (threads
      (run test_env ''/tmp/tykhe-1'' [Caller 0, Caller 0, Caller 0, Worker 0, Caller 0]
        (init (\<lambda>i. \<lparr>req_study = ''nostudy'', req_size = ''4'', req_format = ''csv'',
                      req_sid = ''42'', req_wait = True, req_pid = 0\<rparr>) :: int system)) 0)
     = Failed KeyError
   \<and> files
      (run test_env ''/tmp/tykhe-1'' [Caller 0, Caller 0, Caller 0, Worker 0, Caller 0]
        (init (\<lambda>i. \<lparr>req_study = ''nostudy'', req_size = ''4'', req_format = ''csv'',
                      req_sid = ''42'', req_wait = True, req_pid = 0\<rparr>) :: int system))
      ''/tmp/tykhe-1/creating-tykhe_nostudy_4_42.csv''
     = Some Empty"
proof -
  let ?s = "run test_env ''/tmp/tykhe-1'' [Caller 0, Caller 0, Caller 0, Worker 0, Caller 0]
        (init (\<lambda>i. \<lparr>req_study = ''nostudy'', req_size = ''4'', req_format = ''csv'',
                      req_sid = ''42'', req_wait = True, req_pid = 0\<rparr>) :: int system)"
  have a: "caller (threads ?s 0) = Returned ''tykhe_nostudy_4_42.csv''" by code_simp
  have b: "worker (threads ?s 0) = Failed KeyError" by code_simp
  have "case files ?s ''/tmp/tykhe-1/creating-tykhe_nostudy_4_42.csv'' of
          Some Empty \<Rightarrow> True | _ \<Rightarrow> False"
    by code_simp
  then have c: "files ?s ''/tmp/tykhe-1/creating-tykhe_nostudy_4_42.csv'' = Some Empty"
    by (rule is_signal_file)
  from a b c show ?thesis by simp
qed

text \<open>
  C5, amended. A request for a study that is not declared, made by a call that has not
  begun. If \<open>open\<close> refuses the name of the signal file (the study id holds a slash or a
  null byte, or the name is too long), the call raises that error, and no signal file
  and no data file is created. Otherwise, with neither file of the key in the cache
  directory: if \<open>int\<close> refuses the size or the seed, the call raises ValueError, no
  data file is created and the signal file stays; if \<open>int\<close> accepts both (and the key
  is not memoized), the call returns the file name without raising, its creation thread
  is ended by the exception of \<open>get_study_sample\<close>, no data file is created and the
  signal file stays.
\<close>

theorem unknown_study:
  assumes "STUDIES e (req_study (request (threads s i))) = None"
    and "caller (threads s i) = Start" and "worker (threads s i) = Idle"
  shows "(open_error e cache (signal_name (filename (request (threads s i)))) = Some err \<longrightarrow>
            caller (threads (run e cache [Caller i, Caller i, Caller i, Worker i, Caller i] s) i)
              = Open_Failed err
          \<and> worker (threads (run e cache [Caller i, Caller i, Caller i, Worker i, Caller i] s) i)
              = Idle
          \<and> files (run e cache [Caller i, Caller i, Caller i, Worker i, Caller i] s) = files s)
     \<and> (open_error e cache (signal_name (filename (request (threads s i)))) = None
          \<and> files s (signalpath cache (request (threads s i))) = None
          \<and> files s (pathname cache (request (threads s i))) = None
          \<and> (py_int e (req_size (request (threads s i))) = None
               \<or> py_int e (req_sid (request (threads s i))) = None) \<longrightarrow>
            caller (threads (run e cache [Caller i, Caller i, Caller i, Worker i, Caller i] s) i)
              = Raised ValueError
          \<and> worker (threads (run e cache [Caller i, Caller i, Caller i, Worker i, Caller i] s) i)
              = Idle
          \<and> files (run e cache [Caller i, Caller i, Caller i, Worker i, Caller i] s)
              = (files s)(signalpath cache (request (threads s i)) \<mapsto> Empty))
     \<and> (open_error e cache (signal_name (filename (request (threads s i)))) = None
          \<and> files s (signalpath cache (request (threads s i))) = None
          \<and> files s (pathname cache (request (threads s i))) = None
          \<and> py_int e (req_size (request (threads s i))) = Some sz
          \<and> py_int e (req_sid (request (threads s i))) = Some sid
          \<and> map_of (memo (procs s (req_pid (request (threads s i)))))
                (req_study (request (threads s i)), sz, sid) = None \<longrightarrow>
            caller (threads (run e cache [Caller i, Caller i, Caller i, Worker i, Caller i] s) i)
              = Returned (filename (request (threads s i)))
          \<and> worker (threads (run e cache [Caller i, Caller i, Caller i, Worker i, Caller i] s) i)
              = Failed (if default_rng e sid = None then ValueError else KeyError)
          \<and> files (run e cache [Caller i, Caller i, Caller i, Worker i, Caller i] s)
              = (files s)(signalpath cache (request (threads s i)) \<mapsto> Empty))"
proof -
  let ?r = "request (threads s i)"
  let ?t = "threads s i"
  let ?sched = "[Caller i, Caller i, Caller i, Worker i, Caller i]"
  let ?fs = "(files s)(signalpath cache ?r \<mapsto> Empty)"
  let ?s1 = "s\<lparr>files := ?fs, threads := (threads s)(i := ?t\<lparr>caller := Opened\<rparr>)\<rparr>"
  let ?s2 = "s\<lparr>files := ?fs, threads := (threads s)(i := ?t\<lparr>caller := Spawn\<rparr>)\<rparr>"
  have ne: "pathname cache ?r \<noteq> signalpath cache ?r"
    by (simp add: signalpath_def pathname_def)
  have refused: "caller (threads (run e cache ?sched s) i) = Open_Failed err
          \<and> worker (threads (run e cache ?sched s) i) = Idle
          \<and> files (run e cache ?sched s) = files s"
    if no: "open_error e cache (signal_name (filename ?r)) = Some err"
  proof -
    let ?s0 = "s\<lparr>threads := (threads s)(i := ?t\<lparr>caller := Open_Failed err\<rparr>)\<rparr>"
    have s1: "step_caller e cache i s = ?s0"
      using assms(2) no by (simp add: step_caller_def Let_def)
    have s2: "step_caller e cache i ?s0 = ?s0"
      by (simp add: step_caller_def Let_def)
    have s3: "step_worker e cache i ?s0 = ?s0"
      using assms(3) by (intro step_worker_rest) simp
    from s1 s2 s3 have "run e cache ?sched s = ?s0" by (simp add: run_def)
    with assms(3) show ?thesis by simp
  qed
  have opened: "step_caller e cache i (step_caller e cache i s) = ?s2"
    if ok: "open_error e cache (signal_name (filename ?r)) = None"
      and sp: "files s (signalpath cache ?r) = None"
      and pn: "files s (pathname cache ?r) = None"
  proof -
    have s1: "step_caller e cache i s = ?s1"
      using assms(2) sp ok by (simp add: step_caller_def Let_def)
    have s2: "step_caller e cache i ?s1 = ?s2"
      using pn ne by (simp add: step_caller_def Let_def)
    from s1 s2 show ?thesis by simp
  qed
  have rejected: "caller (threads (run e cache ?sched s) i) = Raised ValueError
          \<and> worker (threads (run e cache ?sched s) i) = Idle
          \<and> files (run e cache ?sched s) = ?fs"
    if ok: "open_error e cache (signal_name (filename ?r)) = None"
      and sp: "files s (signalpath cache ?r) = None"
      and pn: "files s (pathname cache ?r) = None"
      and no: "py_int e (req_size ?r) = None \<or> py_int e (req_sid ?r) = None"
  proof -
    let ?s3 = "s\<lparr>files := ?fs, threads := (threads s)(i := ?t\<lparr>caller := Raised ValueError\<rparr>)\<rparr>"
    have s3: "step_caller e cache i ?s2 = ?s3"
      using no by (auto simp: step_caller_def Let_def split: option.splits)
    have s4: "step_worker e cache i ?s3 = ?s3"
      using assms(3) by (intro step_worker_rest) simp
    have s5: "step_caller e cache i ?s3 = ?s3"
      by (simp add: step_caller_def Let_def)
    from opened [OF ok sp pn] s3 s4 s5 have "run e cache ?sched s = ?s3" by (simp add: run_def)
    with assms(3) show ?thesis by simp
  qed
  have unknown: "caller (threads (run e cache ?sched s) i) = Returned (filename ?r)
          \<and> worker (threads (run e cache ?sched s) i)
              = Failed (if default_rng e sid = None then ValueError else KeyError)
          \<and> files (run e cache ?sched s) = ?fs"
    if ok: "open_error e cache (signal_name (filename ?r)) = None"
      and sp: "files s (signalpath cache ?r) = None"
      and pn: "files s (pathname cache ?r) = None"
      and sz: "py_int e (req_size ?r) = Some sz"
      and sid: "py_int e (req_sid ?r) = Some sid"
      and miss: "map_of (memo (procs s (req_pid ?r))) (req_study ?r, sz, sid) = None"
  proof -
    let ?err = "if default_rng e sid = None then ValueError else KeyError"
    let ?c = "if req_wait ?r then Join else Returned (filename ?r)"
    let ?s3 = "s\<lparr>files := ?fs,
                  threads := (threads s)(i := ?t\<lparr>caller := ?c, worker := Sampling sz sid\<rparr>)\<rparr>"
    let ?s4 = "s\<lparr>files := ?fs, created := created s @ [pathname cache ?r],
                  threads := (threads s)(i := ?t\<lparr>caller := ?c, worker := Failed ?err\<rparr>)\<rparr>"
    have s3: "step_caller e cache i ?s2 = ?s3"
      using sz sid by (simp add: step_caller_def Let_def)
    have g: "get_study_sample e (req_study ?r) sz sid (procs s (req_pid ?r))
        = (Inl ?err, procs s (req_pid ?r))"
      using assms(1) miss
      by (simp add: get_study_sample_def compute_study_sample_def split: option.splits)
    have s4: "step_worker e cache i ?s3 = ?s4"
      using assms(3) g by (simp add: step_worker_def Let_def)
    have s5: "caller (threads (step_caller e cache i ?s4) i) = Returned (filename ?r)"
      "worker (threads (step_caller e cache i ?s4) i) = Failed ?err"
      "files (step_caller e cache i ?s4) = ?fs"
      by (simp_all add: step_caller_def Let_def)
    from opened [OF ok sp pn] s3 s4 have "run e cache ?sched s = step_caller e cache i ?s4"
      by (simp add: run_def)
    with s5 show ?thesis by simp
  qed
  from refused rejected unknown show ?thesis by blast
qed

theorem unknown_study_witness:
  "caller (threads
      (run test_env ''/tmp/tykhe-1'' [Caller 0, Caller 0, Caller 0, Worker 0, Caller 0]
        (init (\<lambda>i. \<lparr>req_study = ''nostudy'', req_size = ''4'', req_format = ''sav'',
                      req_sid = ''42'', req_wait = False, req_pid = 0\<rparr>) :: int system)) 0)
     = Returned ''tykhe_nostudy_4_42.sav''
   \<and> files
      (run test_env ''/tmp/tykhe-1'' [Caller 0, Caller 0, Caller 0, Worker 0, Caller 0]
        (init (\<lambda>i. \<lparr>req_study = ''nostudy'', req_size = ''4'', req_format = ''sav'',
                      req_sid = ''42'', req_wait = False, req_pid = 0\<rparr>) :: int system))
     = [''/tmp/tykhe-1/creating-tykhe_nostudy_4_42.sav'' \<mapsto> Empty]
   \<and> caller (threads
      (run test_env ''/tmp/tykhe-1'' [Caller 0, Caller 0, Caller 0, Worker 0, Caller 0]
        (init (\<lambda>i. \<lparr>req_study = ''no/study'', req_size = ''4'', req_format = ''sav'',
                      req_sid = ''42'', req_wait = False, req_pid = 0\<rparr>) :: int system)) 0)
     = Open_Failed FileNotFoundError
   \<and> files
      (run test_env ''/tmp/tykhe-1'' [Caller 0, Caller 0, Caller 0, Worker 0, Caller 0]
        (init (\<lambda>i. \<lparr>req_study = ''no/study'', req_size = ''4'', req_format = ''sav'',
                      req_sid = ''42'', req_wait = False, req_pid = 0\<rparr>) :: int system))
     = Map.empty
   \<and> caller (threads
      (run test_env ''/tmp/tykhe-1'' [Caller 0, Caller 0, Caller 0, Worker 0, Caller 0]
        (init (\<lambda>i. \<lparr>req_study = ''nostudy'', req_size = ''four'', req_format = ''sav'',
                      req_sid = ''42'', req_wait = False, req_pid = 0\<rparr>) :: int system)) 0)
     = Raised ValueError"
proof -
  let ?c = "''/tmp/tykhe-1''"
  let ?r = "\<lparr>req_study = ''nostudy'', req_size = ''4'', req_format = ''sav'',
             req_sid = ''42'', req_wait = False, req_pid = 0\<rparr>"
  let ?q = "\<lparr>req_study = ''no/study'', req_size = ''4'', req_format = ''sav'',
             req_sid = ''42'', req_wait = False, req_pid = 0\<rparr>"
  let ?u = "\<lparr>req_study = ''nostudy'', req_size = ''four'', req_format = ''sav'',
             req_sid = ''42'', req_wait = False, req_pid = 0\<rparr>"
  let ?s = "init (\<lambda>i. ?r) :: int system"
  let ?sq = "init (\<lambda>i. ?q) :: int system"
  let ?su = "init (\<lambda>i. ?u) :: int system"
  have rq: "request (threads ?s 0) = ?r" "request (threads ?sq 0) = ?q"
    "request (threads ?su 0) = ?u"
    by (simp_all add: init_def)
  have a: "STUDIES test_env (req_study (request (threads ?s 0))) = None"
    "STUDIES test_env (req_study (request (threads ?sq 0))) = None"
    "STUDIES test_env (req_study (request (threads ?su 0))) = None"
    unfolding rq by (simp_all add: STUDIES_def)
  have d: "caller (threads ?s 0) = Start" "worker (threads ?s 0) = Idle"
    "caller (threads ?sq 0) = Start" "worker (threads ?sq 0) = Idle"
    "caller (threads ?su 0) = Start" "worker (threads ?su 0) = Idle"
    by (simp_all add: init_def)
  have ok: "open_error test_env ?c (signal_name (filename ?r)) = None"
    "open_error test_env ?c (signal_name (filename ?u)) = None"
    by code_simp+
  have no: "open_error test_env ?c (signal_name (filename ?q)) = Some FileNotFoundError"
    by code_simp
  have b: "py_int test_env (req_size ?r) = Some 4" "py_int test_env (req_sid ?r) = Some 42"
    "py_int test_env (req_size ?u) = None"
    by code_simp+
  have f: "files ?s (signalpath ?c ?r) = None" "files ?s (pathname ?c ?r) = None"
    "files ?su (signalpath ?c ?u) = None" "files ?su (pathname ?c ?u) = None"
    by (simp_all add: init_def)
  have m: "map_of (memo (procs ?s (req_pid ?r))) (req_study ?r, 4, 42) = None"
    by (simp add: init_def fresh_proc_def)
  have sp: "signalpath ?c ?r = ''/tmp/tykhe-1/creating-tykhe_nostudy_4_42.sav''"
    by (simp add: signalpath_def path_join_def signal_name_def filename_def)
  have fn: "filename ?r = ''tykhe_nostudy_4_42.sav''" by (simp add: filename_def)
  have fs: "files ?s = Map.empty" "files ?sq = Map.empty" by (simp_all add: init_def)
  from unknown_study [OF a(1) d(1,2), where cache = ?c and sz = 4 and sid = 42] ok(1) b(1,2) f(1,2) m
  have one: "caller (threads (run test_env ?c [Caller 0, Caller 0, Caller 0, Worker 0, Caller 0] ?s) 0)
       = Returned ''tykhe_nostudy_4_42.sav''
     \<and> files (run test_env ?c [Caller 0, Caller 0, Caller 0, Worker 0, Caller 0] ?s)
       = [''/tmp/tykhe-1/creating-tykhe_nostudy_4_42.sav'' \<mapsto> Empty]"
    unfolding rq sp fn fs by simp
  from unknown_study [OF a(2) d(3,4), where cache = ?c and err = FileNotFoundError] no
  have two: "caller (threads (run test_env ?c [Caller 0, Caller 0, Caller 0, Worker 0, Caller 0] ?sq) 0)
       = Open_Failed FileNotFoundError
     \<and> files (run test_env ?c [Caller 0, Caller 0, Caller 0, Worker 0, Caller 0] ?sq) = Map.empty"
    unfolding rq fs by simp
  from unknown_study [OF a(3) d(5,6), where cache = ?c] ok(2) b(3) f(3,4)
  have three: "caller (threads (run test_env ?c [Caller 0, Caller 0, Caller 0, Worker 0, Caller 0] ?su) 0)
       = Raised ValueError"
    unfolding rq by simp
  from one two three show ?thesis by simp
qed

text \<open>
  C2 does not hold of the code. \<open>get_study_sample\<close> hands back the one memoized frame of
  the key, and \<open>df_to_csv\<close> has replaced the ordered categorical column of that frame by
  its codes. In a fresh process the call for (levels, 3, 7) returns \<open>happiness\<close> as an
  ordered categorical column; in a process that has served the csv request for the same
  key it returns \<open>happiness\<close> as a column of integers.
\<close>

theorem sample_depends_on_requests_served:
  "returned_sample test_env ''levels'' 3 7 (fresh_proc :: int proc)
     = Inr [(''sex'', CatCol False [''female'', ''male''] [1, 1, 1]),
            (''happiness'',
             CatCol True [''very unhappy'', ''unhappy'', ''neutral'', ''happy'', ''very happy'']
               [3, 2, 1]),
            (''colour'',
             CatCol False
               [''red'', ''orange'', ''yellow'', ''green'', ''blue'', ''purple'', ''black'',
                ''white'', ''grey'', ''brown'']
               [9, 3, 7]),
            (''height'', FloatCol [72913, 100013, 127113])]
   \<and> returned_sample test_env ''levels'' 3 7
        (procs
          (run test_env ''/tmp/tykhe-1''
             [Caller 0, Caller 0, Caller 0, Worker 0, Worker 0, Worker 0, Caller 0]
             (init (\<lambda>i. \<lparr>req_study = ''levels'', req_size = ''3'', req_format = ''csv'',
                           req_sid = ''7'', req_wait = True, req_pid = 0\<rparr>) :: int system))
          0)
     = Inr [(''sex'', CatCol False [''female'', ''male''] [1, 1, 1]),
            (''happiness'', IntCol [3, 2, 1]),
            (''colour'',
             CatCol False
               [''red'', ''orange'', ''yellow'', ''green'', ''blue'', ''purple'', ''black'',
                ''white'', ''grey'', ''brown'']
               [9, 3, 7]),
            (''height'', FloatCol [72913, 100013, 127113])]"
  by code_simp

text \<open>
  C3 does not hold of the code. \<open>df_to_csv\<close> replaces the ordered categorical column of
  the frame it is given by its codes, and the frame is the one object that
  \<open>get_study_sample\<close> memoizes. Served alone, the sav request for (levels, 3, 7) writes
  \<open>happiness\<close> as an ordinal variable with format and value labels; served in the same
  process after the csv request for the same key, it writes \<open>happiness\<close> as a scale
  variable without format and without value labels.
\<close>

theorem writers_change_memoized_frame:
  "fst (df_to_csv ([(''happiness'', CatCol True happiness [3, 2, 1]),
                    (''height'', FloatCol [170, 180, 160])] :: int dataframe)
          ''out.csv'' Map.empty)
     = [(''happiness'', IntCol [3, 2, 1]), (''height'', FloatCol [170, 180, 160])]
   \<and> (case files
          (run test_env ''/tmp/tykhe-1''
             [Caller 0, Caller 0, Caller 0, Worker 0, Worker 0, Worker 0, Caller 0]
             (init (\<lambda>i. \<lparr>req_study = ''levels'', req_size = ''3'',
                           req_format = (if i = 0 then ''sav'' else ''csv''),
                           req_sid = ''7'', req_wait = True, req_pid = 0\<rparr>) :: int system))
          ''/tmp/tykhe-1/tykhe_levels_3_7.sav'' of
        Some (Sav sv) \<Rightarrow>
          (sav_measureLevels sv ''happiness'', sav_formats sv ''happiness'',
           map_option (\<lambda>vl. map vl [1, 2, 3]) (sav_valueLabels sv ''happiness''),
           df_get (sav_data sv) ''happiness'')
      | _ \<Rightarrow> (None, None, None, None))
     = (Some ''ordinal'', Some ''F1.0'', Some [Some ''unhappy'', Some ''neutral'', Some ''happy''],
        Some (IntCol [3, 2, 1]))
   \<and> (case files
          (run test_env ''/tmp/tykhe-1''
             [Caller 1, Caller 1, Caller 1, Worker 1, Worker 1, Worker 1, Caller 1,
              Caller 0, Caller 0, Caller 0, Worker 0, Worker 0, Worker 0, Caller 0]
             (init (\<lambda>i. \<lparr>req_study = ''levels'', req_size = ''3'',
                           req_format = (if i = 0 then ''sav'' else ''csv''),
                           req_sid = ''7'', req_wait = True, req_pid = 0\<rparr>) :: int system))
          ''/tmp/tykhe-1/tykhe_levels_3_7.sav'' of
        Some (Sav sv) \<Rightarrow>
          (sav_measureLevels sv ''happiness'', sav_formats sv ''happiness'',
           map_option (\<lambda>vl. map vl [1, 2, 3]) (sav_valueLabels sv ''happiness''),
           df_get (sav_data sv) ''happiness'')
      | _ \<Rightarrow> (None, None, None, None))
     = (Some ''scale'', None, None, Some (IntCol [3, 2, 1]))"
  by code_simp


end
